theory Spec2Isabelle
  imports Main "HOL-Library.Word"
begin

unbundle bit_operations_syntax

section \<open>privconvert: data model\<close>

text \<open>
  The program shifts the owner, the group and the ACL qualifiers of every object below a
  set of directories by a fixed signed offset, and records the new privilege state in the
  container's configuration file. The model follows \<^verbatim>\<open>src/privconvert.c\<close>: the C
  globals are a record that every function takes and returns, the file system is a record
  holding the inode table of the kernel, and every system or library call that can fail
  is a branch.
\<close>

type_synonym path = string
type_synonym uid_t = "32 word"
type_synonym gid_t = "32 word"
type_synonym mode_t = "32 word"
type_synonym dev_t = "64 word"
type_synonym ino_t = "64 word"
type_synonym errno = nat

definition MAX_PATHS :: nat where "MAX_PATHS = 64"
definition MAX_LINE :: nat where "MAX_LINE = 4096"
definition MAX_PATH_LEN :: nat where "MAX_PATH_LEN = 2048"
definition UID_GID_OFFSET :: "32 word" where "UID_GID_OFFSET = 100000"
definition MAX_UID_GID :: "32 word" where "MAX_UID_GID = 200000"
definition INODE_HASH_SIZE :: "64 word" where "INODE_HASH_SIZE = 65536"

definition ENOSYS :: errno where "ENOSYS = 38"
definition ENOTSUP :: errno where "ENOTSUP = 95"
definition ENOENT :: errno where "ENOENT = 2"

text \<open>The file type bits of \<^verbatim>\<open>st_mode\<close> (octal 0170000, 0120000, 0040000).\<close>

definition S_IFMT :: mode_t where "S_IFMT = 61440"
definition S_ISLNK :: "mode_t \<Rightarrow> bool" where "S_ISLNK m = (m AND S_IFMT = 40960)"
definition S_ISDIR :: "mode_t \<Rightarrow> bool" where "S_ISDIR m = (m AND S_IFMT = 16384)"

datatype acl_tag = ACL_USER_OBJ | ACL_USER | ACL_GROUP_OBJ | ACL_GROUP | ACL_MASK | ACL_OTHER

datatype acl_type_t = ACL_TYPE_ACCESS | ACL_TYPE_DEFAULT

text \<open>
  An ACL entry as libacl presents it: \<open>e_tag\<close> is what \<^verbatim>\<open>acl_get_tag_type\<close> yields
  (\<open>None\<close> when it returns -1), \<open>e_qualifier\<close> what \<^verbatim>\<open>acl_get_qualifier\<close> yields
  (\<open>None\<close> for NULL), and \<open>e_settable\<close> tells whether \<^verbatim>\<open>acl_set_qualifier\<close> succeeds.
\<close>

record acl_entry =
  e_tag :: "acl_tag option"
  e_qualifier :: "uid_t option"
  e_settable :: bool

type_synonym acl_t = "acl_entry list"

text \<open>
  What \<^verbatim>\<open>lstat\<close> reports of an object, with its two ACLs. An ACL slot is \<open>Inl errno\<close>
  when \<^verbatim>\<open>acl_get_file\<close> fails with that error. \<open>link_to\<close> is, for a symbolic link,
  the inode that the calls which follow links end at (\<open>None\<close> for a dangling link).
\<close>

record inode =
  st_uid :: uid_t
  st_gid :: gid_t
  st_mode :: mode_t
  acl_access :: "errno + acl_t"
  acl_default :: "errno + acl_t"
  link_to :: "(dev_t \<times> ino_t) option"

datatype id_error = IdentityUnderflow | IdentityOverflow

text \<open>
  The calls the program makes and the lines it prints, in the order they happen.
  \<open>Sys_create\<close> is the \<^verbatim>\<open>fopen\<close> of the temporary configuration for writing.
\<close>

datatype event =
    Sys_stat path
  | Sys_lstat path
  | Sys_lchown path uid_t gid_t
  | Sys_chmod path mode_t
  | Sys_acl_get path acl_type_t
  | Sys_acl_set path acl_type_t acl_t
  | Out_converting path
  | Out_processed "64 word" "64 word"
  | Err_stat path
  | Err_bounds path id_error
  | Err_chown path
  | Err_no_path path
  | Err_not_directory path
  | Err_walk path
  | Err_converting path
  | Sys_create path
  | Sys_rename path path
  | Sys_unlink path

text \<open>
  The world outside the process. \<open>names\<close> resolves a path without following a final
  symbolic link; \<open>inodes\<close> is the kernel's table; \<open>files\<close> holds the contents of the
  regular files the program reads and writes. The remaining fields are fixed for a run
  and say which calls fail: the \<open>n\<close>-th \<^verbatim>\<open>malloc\<close> succeeds iff \<open>malloc_ok n\<close>;
  \<open>nftw_plan root\<close> is the list of entries \<^verbatim>\<open>nftw\<close> hands to its callback below
  \<open>root\<close> (physical walk, one file system), and whether the walk itself then fails;
  \<open>chown_mode\<close> is what the kernel leaves of a mode when the owner changes;
  \<open>create_ok\<close> and \<open>rename_ok\<close> say whether a file can be created and renamed;
  \<open>opendir_ok\<close>, \<open>system_rc\<close> and \<open>access_ok\<close> answer the probes for a running
  container.
\<close>

record world =
  names :: "path \<Rightarrow> (dev_t \<times> ino_t) option"
  inodes :: "dev_t \<times> ino_t \<Rightarrow> inode option"
  files :: "path \<Rightarrow> string option"
  trace :: "event list"
  mallocs :: nat
  malloc_ok :: "nat \<Rightarrow> bool"
  lchown_ok :: "path \<Rightarrow> bool"
  chmod_ok :: "path \<Rightarrow> bool"
  acl_set_ok :: "path \<Rightarrow> acl_type_t \<Rightarrow> bool"
  chown_mode :: "mode_t \<Rightarrow> mode_t"
  nftw_plan :: "path \<Rightarrow> path list \<times> bool"
  create_ok :: "path \<Rightarrow> bool"
  rename_ok :: "path \<Rightarrow> bool"
  opendir_ok :: "path \<Rightarrow> bool"
  system_rc :: "string \<Rightarrow> int"
  access_ok :: "path \<Rightarrow> bool"

type_synonym inode_table_t = "nat \<Rightarrow> (dev_t \<times> ino_t) list"

text \<open>The globals of the C file (lines 34-46).\<close>

record globals =
  g_offset :: "32 word"
  g_files_processed :: "64 word"
  g_errors :: "64 word"
  inode_table :: inode_table_t

definition emit :: "event \<Rightarrow> world \<Rightarrow> world" where
  "emit e w = w\<lparr>trace := trace w @ [e]\<rparr>"

section \<open>System calls\<close>

definition lstat_of :: "world \<Rightarrow> path \<Rightarrow> (dev_t \<times> ino_t \<times> inode) option" where
  "lstat_of w p =
     (case names w p of
        None \<Rightarrow> None
      | Some (dev, ino) \<Rightarrow>
          (case inodes w (dev, ino) of
             None \<Rightarrow> None
           | Some st \<Rightarrow> Some (dev, ino, st)))"

text \<open>Where a call that follows symbolic links ends.\<close>

definition resolve :: "world \<Rightarrow> path \<Rightarrow> (dev_t \<times> ino_t) option" where
  "resolve w p =
     (case lstat_of w p of
        None \<Rightarrow> None
      | Some (dev, ino, st) \<Rightarrow> if S_ISLNK (st_mode st) then link_to st else Some (dev, ino))"

definition sys_lstat :: "world \<Rightarrow> path \<Rightarrow> (dev_t \<times> ino_t \<times> inode) option \<times> world" where
  "sys_lstat w p = (lstat_of w p, emit (Sys_lstat p) w)"

definition sys_stat :: "world \<Rightarrow> path \<Rightarrow> inode option \<times> world" where
  "sys_stat w p =
     ((case resolve w p of None \<Rightarrow> None | Some k \<Rightarrow> inodes w k), emit (Sys_stat p) w)"

text \<open>\<^verbatim>\<open>lchown\<close> changes the object the path names, never the target of a link.\<close>

definition sys_lchown :: "world \<Rightarrow> path \<Rightarrow> uid_t \<Rightarrow> gid_t \<Rightarrow> bool \<times> world" where
  "sys_lchown w p u g =
     (let w1 = emit (Sys_lchown p u g) w in
      case lstat_of w p of
        None \<Rightarrow> (False, w1)
      | Some (dev, ino, st) \<Rightarrow>
          if lchown_ok w p
          then (True, w1\<lparr>inodes := (inodes w1)((dev, ino) \<mapsto>
                  st\<lparr>st_uid := u, st_gid := g, st_mode := chown_mode w (st_mode st)\<rparr>)\<rparr>)
          else (False, w1))"

text \<open>\<^verbatim>\<open>chmod\<close> follows links and replaces the permission bits (octal 07777).\<close>

definition sys_chmod :: "world \<Rightarrow> path \<Rightarrow> mode_t \<Rightarrow> bool \<times> world" where
  "sys_chmod w p m =
     (let w1 = emit (Sys_chmod p m) w in
      case resolve w p of
        None \<Rightarrow> (False, w1)
      | Some k \<Rightarrow>
          (case inodes w k of
             None \<Rightarrow> (False, w1)
           | Some st \<Rightarrow>
               if chmod_ok w p
               then (True, w1\<lparr>inodes := (inodes w1)(k \<mapsto>
                       st\<lparr>st_mode := (st_mode st AND S_IFMT) OR (m AND 4095)\<rparr>)\<rparr>)
               else (False, w1)))"

definition acl_slot :: "acl_type_t \<Rightarrow> inode \<Rightarrow> errno + acl_t" where
  "acl_slot ty st = (case ty of ACL_TYPE_ACCESS \<Rightarrow> acl_access st | ACL_TYPE_DEFAULT \<Rightarrow> acl_default st)"

definition set_acl_slot :: "acl_type_t \<Rightarrow> acl_t \<Rightarrow> inode \<Rightarrow> inode" where
  "set_acl_slot ty acl st =
     (case ty of
        ACL_TYPE_ACCESS \<Rightarrow> st\<lparr>acl_access := Inr acl\<rparr>
      | ACL_TYPE_DEFAULT \<Rightarrow> st\<lparr>acl_default := Inr acl\<rparr>)"

definition acl_get_file :: "world \<Rightarrow> path \<Rightarrow> acl_type_t \<Rightarrow> (errno + acl_t) \<times> world" where
  "acl_get_file w p ty =
     ((case resolve w p of
         None \<Rightarrow> Inl ENOENT
       | Some k \<Rightarrow> (case inodes w k of None \<Rightarrow> Inl ENOENT | Some st \<Rightarrow> acl_slot ty st)),
      emit (Sys_acl_get p ty) w)"

definition acl_set_file :: "world \<Rightarrow> path \<Rightarrow> acl_type_t \<Rightarrow> acl_t \<Rightarrow> bool \<times> world" where
  "acl_set_file w p ty acl =
     (let w1 = emit (Sys_acl_set p ty acl) w in
      case resolve w p of
        None \<Rightarrow> (False, w1)
      | Some k \<Rightarrow>
          (case inodes w k of
             None \<Rightarrow> (False, w1)
           | Some st \<Rightarrow>
               if acl_set_ok w p ty
               then (True, w1\<lparr>inodes := (inodes w1)(k \<mapsto> set_acl_slot ty acl st)\<rparr>)
               else (False, w1)))"

section \<open>Identity hash set (lines 39-79)\<close>

definition inode_hash :: "dev_t \<Rightarrow> ino_t \<Rightarrow> nat" where
  "inode_hash dev ino = unat ((dev XOR ino) mod INODE_HASH_SIZE)"

fun chain_seen :: "(dev_t \<times> ino_t) list \<Rightarrow> dev_t \<Rightarrow> ino_t \<Rightarrow> bool" where
  "chain_seen [] dev ino = False"
| "chain_seen (entry # next) dev ino =
     (if fst entry = dev \<and> snd entry = ino then True else chain_seen next dev ino)"

definition inode_seen :: "inode_table_t \<Rightarrow> dev_t \<Rightarrow> ino_t \<Rightarrow> bool" where
  "inode_seen tbl dev ino = chain_seen (tbl (inode_hash dev ino)) dev ino"

text \<open>A failed allocation is reported and the pair is not recorded (lines 70-74).\<close>

definition inode_mark_seen ::
  "inode_table_t \<Rightarrow> world \<Rightarrow> dev_t \<Rightarrow> ino_t \<Rightarrow> inode_table_t \<times> world" where
  "inode_mark_seen tbl w dev ino =
     (let hash = inode_hash dev ino;
          w1 = w\<lparr>mallocs := mallocs w + 1\<rparr>
      in if \<not> malloc_ok w (mallocs w) then (tbl, w1)
         else (tbl(hash := (dev, ino) # tbl hash), w1))"

definition free_inode_table :: "inode_table_t \<Rightarrow> inode_table_t" where
  "free_inode_table tbl = (\<lambda>i. [])"

section \<open>ACL shift (lines 95-170)\<close>

text \<open>The new qualifier of one entry, or \<open>None\<close> where the code returns -1 (lines 130-146).\<close>

definition shift_qualifier :: "32 word \<Rightarrow> uid_t \<Rightarrow> uid_t option" where
  "shift_qualifier offset old_id =
     (if sint offset < 0
      then (if old_id < - offset then None else Some (old_id - (- offset)))
      else (let new_id = old_id + offset
            in if new_id > MAX_UID_GID then None else Some new_id))"

text \<open>
  The loop over the entries of the in-memory ACL (lines 112-158): the entries as they are
  after the loop and \<open>needs_update\<close>, or \<open>None\<close> when the loop returns -1.
  \<^verbatim>\<open>acl_get_entry\<close> hands out the entries of the ACL one after the other and ends the
  loop after the last.
\<close>

fun shift_entries :: "32 word \<Rightarrow> acl_t \<Rightarrow> bool \<Rightarrow> (acl_t \<times> bool) option" where
  "shift_entries offset [] needs_update = Some ([], needs_update)"
| "shift_entries offset (entry # rest) needs_update =
     (case e_tag entry of
        None \<Rightarrow> None
      | Some tag \<Rightarrow>
          if tag = ACL_USER \<or> tag = ACL_GROUP
          then (case e_qualifier entry of
                  None \<Rightarrow>
                    (case shift_entries offset rest needs_update of
                       None \<Rightarrow> None
                     | Some (es, n) \<Rightarrow> Some (entry # es, n))
                | Some old_id \<Rightarrow>
                    (case shift_qualifier offset old_id of
                       None \<Rightarrow> None
                     | Some new_id \<Rightarrow>
                         if \<not> e_settable entry then None
                         else (case shift_entries offset rest True of
                                 None \<Rightarrow> None
                               | Some (es, n) \<Rightarrow>
                                   Some (entry\<lparr>e_qualifier := Some new_id\<rparr> # es, n))))
          else (case shift_entries offset rest needs_update of
                  None \<Rightarrow> None
                | Some (es, n) \<Rightarrow> Some (entry # es, n)))"

definition shift_acl :: "world \<Rightarrow> path \<Rightarrow> acl_type_t \<Rightarrow> 32 word \<Rightarrow> int \<times> world" where
  "shift_acl w path ty offset =
     (case acl_get_file w path ty of
        (Inl err, w1) \<Rightarrow> if err = ENOTSUP \<or> err = ENOSYS then (0, w1) else (- 1, w1)
      | (Inr acl, w1) \<Rightarrow>
          (case shift_entries offset acl False of
             None \<Rightarrow> (- 1, w1)
           | Some (acl', needs_update) \<Rightarrow>
               if needs_update
               then (case acl_set_file w1 path ty acl' of
                       (False, w2) \<Rightarrow> (- 1, w2)
                     | (True, w2) \<Rightarrow> (0, w2))
               else (0, w1)))"

section \<open>Object converter and tree walk (lines 173-290)\<close>

text \<open>The new owner and group, or the bounds error (lines 196-214).\<close>

definition new_ids :: "32 word \<Rightarrow> uid_t \<Rightarrow> gid_t \<Rightarrow> id_error + (uid_t \<times> gid_t)" where
  "new_ids offset uid gid =
     (if sint offset < 0
      then (if uid < - offset \<or> gid < - offset then Inl IdentityUnderflow
            else Inr (uid - (- offset), gid - (- offset)))
      else (let new_uid = uid + offset; new_gid = gid + offset
            in if new_uid > MAX_UID_GID \<or> new_gid > MAX_UID_GID then Inl IdentityOverflow
               else Inr (new_uid, new_gid)))"

text \<open>
  Lines 224-248, for an object that is not a symbolic link. The results of \<^verbatim>\<open>chmod\<close>
  and of the two ACL shifts only decide whether a warning is printed.
\<close>

definition restore_and_shift :: "world \<Rightarrow> path \<Rightarrow> inode \<Rightarrow> 32 word \<Rightarrow> world" where
  "restore_and_shift w fpath st offset =
     (let w1 = snd (sys_chmod w fpath (st_mode st));
          w2 = snd (shift_acl w1 fpath ACL_TYPE_ACCESS offset)
      in if S_ISDIR (st_mode st) then snd (shift_acl w2 fpath ACL_TYPE_DEFAULT offset) else w2)"

text \<open>The callback of the walk: its return value (1 stops the walk), the globals, the world.\<close>

definition process_file :: "globals \<Rightarrow> world \<Rightarrow> path \<Rightarrow> int \<times> globals \<times> world" where
  "process_file g w fpath =
     (case sys_lstat w fpath of
        (None, w0) \<Rightarrow> (0, g\<lparr>g_errors := g_errors g + 1\<rparr>, emit (Err_stat fpath) w0)
      | (Some (dev, ino, st), w0) \<Rightarrow>
          if inode_seen (inode_table g) dev ino then (0, g, w0)
          else
            (case inode_mark_seen (inode_table g) w0 dev ino of
               (tbl, w1) \<Rightarrow>
                 (let g1 = g\<lparr>inode_table := tbl\<rparr> in
                  case new_ids (g_offset g) (st_uid st) (st_gid st) of
                    Inl err \<Rightarrow>
                      (1, g1\<lparr>g_errors := g_errors g1 + 1\<rparr>, emit (Err_bounds fpath err) w1)
                  | Inr (new_uid, new_gid) \<Rightarrow>
                      (case sys_lchown w1 fpath new_uid new_gid of
                         (False, w2) \<Rightarrow>
                           (0, g1\<lparr>g_errors := g_errors g1 + 1\<rparr>, emit (Err_chown fpath) w2)
                       | (True, w2) \<Rightarrow>
                           (0, g1\<lparr>g_files_processed := g_files_processed g1 + 1\<rparr>,
                            if \<not> S_ISLNK (st_mode st)
                            then restore_and_shift w2 fpath st (g_offset g)
                            else w2)))))"

text \<open>\<^verbatim>\<open>nftw\<close> calls the callback on each entry and stops at the first non-zero return.\<close>

fun nftw_walk :: "globals \<Rightarrow> world \<Rightarrow> path list \<Rightarrow> int \<times> globals \<times> world" where
  "nftw_walk g w [] = (0, g, w)"
| "nftw_walk g w (fpath # rest) =
     (case process_file g w fpath of
        (r, g', w') \<Rightarrow> if r \<noteq> 0 then (r, g', w') else nftw_walk g' w' rest)"

definition nftw :: "globals \<Rightarrow> world \<Rightarrow> path \<Rightarrow> int \<times> globals \<times> world" where
  "nftw g w path =
     (case nftw_walk g w (fst (nftw_plan w path)) of
        (r, g', w') \<Rightarrow>
          if r \<noteq> 0 then (r, g', w')
          else if snd (nftw_plan w path) then (- 1, g', w')
          else (0, g', w'))"

definition convert_path :: "globals \<Rightarrow> world \<Rightarrow> path \<Rightarrow> 32 word \<Rightarrow> int \<times> globals \<times> world" where
  "convert_path g w path offset =
     (let w0 = emit (Out_converting path) w in
      case sys_stat w0 path of
        (None, w1) \<Rightarrow> (- 1, g, emit (Err_no_path path) w1)
      | (Some st, w1) \<Rightarrow>
          if \<not> S_ISDIR (st_mode st) then (- 1, g, emit (Err_not_directory path) w1)
          else
            (let g1 = g\<lparr>g_offset := offset, g_files_processed := 0, g_errors := 0\<rparr> in
             case nftw g1 w1 path of
               (r, g2, w2) \<Rightarrow>
                 if r = - 1 then (- 1, g2, emit (Err_walk path) w2)
                 else (if g_errors g2 > 0 then - 1 else 0, g2,
                       emit (Out_processed (g_files_processed g2) (g_errors g2)) w2)))"

text \<open>The loop of \<^verbatim>\<open>main\<close> over the target paths (lines 634-640).\<close>

fun convert_all :: "globals \<Rightarrow> world \<Rightarrow> path list \<Rightarrow> 32 word \<Rightarrow> int \<Rightarrow> int \<times> globals \<times> world" where
  "convert_all g w [] offset overall_result = (overall_result, g, w)"
| "convert_all g w (p # paths) offset overall_result =
     (case convert_path g w p offset of
        (r, g', w') \<Rightarrow>
          if r = - 1 then convert_all g' (emit (Err_converting p) w') paths offset 1
          else convert_all g' w' paths offset overall_result)"

section \<open>C strings, lines and numbers\<close>

text \<open>A buffer read as a C string ends before its first NUL byte.\<close>

definition c_str :: "string \<Rightarrow> string" where
  "c_str buf = takeWhile (\<lambda>c. c \<noteq> CHR 0x00) buf"

definition isspace :: "char \<Rightarrow> bool" where
  "isspace c = (c \<in> set [CHR 0x20, CHR 0x09, CHR 0x0A, CHR 0x0B, CHR 0x0C, CHR 0x0D])"

definition isdigit :: "char \<Rightarrow> bool" where
  "isdigit c = (c \<in> set ''0123456789'')"

text \<open>\<^verbatim>\<open>strncmp(a, b, n) == 0\<close>.\<close>

definition strncmp_eq :: "string \<Rightarrow> string \<Rightarrow> nat \<Rightarrow> bool" where
  "strncmp_eq a b n = (take n (c_str a) = take n (c_str b))"

text \<open>
  One \<^verbatim>\<open>fgets\<close> with room for \<open>n\<close> characters: it stops after a newline or when the
  room is used up. The result is what was read and the rest of the stream.
\<close>

fun fgets_take :: "nat \<Rightarrow> string \<Rightarrow> string \<times> string" where
  "fgets_take n [] = ([], [])"
| "fgets_take 0 (c # cs) = ([], c # cs)"
| "fgets_take (Suc n) (c # cs) =
     (if c = CHR 0x0A then ([c], cs)
      else (case fgets_take n cs of (l, r) \<Rightarrow> (c # l, r)))"

lemma fgets_take_rest: "length (snd (fgets_take n s)) \<le> length s"
  by (induction n s rule: fgets_take.induct) (auto split: prod.splits)

text \<open>
  The lines that the loop \<^verbatim>\<open>while (fgets(line, size, fp))\<close> sees until the end of the
  file.
\<close>

function fgets_lines :: "nat \<Rightarrow> string \<Rightarrow> string list" where
  "fgets_lines bufsize stream =
     (if stream = [] \<or> bufsize \<le> 1 then []
      else (case fgets_take (bufsize - 1) stream of (l, r) \<Rightarrow> l # fgets_lines bufsize r))"
  by pat_completeness auto
termination
proof (relation "measure (\<lambda>(bufsize, stream). length stream)")
  show "wf (measure (\<lambda>(bufsize, stream). length stream))" by simp
next
  fix bufsize :: nat and stream x :: string and l r :: string
  assume a: "\<not> (stream = [] \<or> bufsize \<le> 1)" and b: "(l, r) = fgets_take (bufsize - 1) stream"
  obtain c cs where s: "stream = c # cs" using a by (cases stream) auto
  obtain m where m: "bufsize - 1 = Suc m" using a by (cases "bufsize - 1") auto
  have "length r \<le> length cs"
  proof (cases "c = CHR 0x0A")
    case True
    then show ?thesis using b s m by simp
  next
    case False
    then have "r = snd (fgets_take m cs)" using b s m by (simp split: prod.splits)
    then show ?thesis using fgets_take_rest[of m cs] by simp
  qed
  then show "((bufsize, r), (bufsize, stream)) \<in> measure (\<lambda>(bufsize, stream). length stream)"
    using s by simp
qed

declare fgets_lines.simps [simp del]

text \<open>\<^verbatim>\<open>%d\<close> of \<^verbatim>\<open>printf\<close>.\<close>

fun nat_digits :: "nat \<Rightarrow> string" where
  "nat_digits n =
     (if n < 10 then [''0123456789'' ! n]
      else nat_digits (n div 10) @ [''0123456789'' ! (n mod 10)])"

definition show_int :: "int \<Rightarrow> string" where
  "show_int i = (if i < 0 then CHR ''-'' # nat_digits (nat (- i)) else nat_digits (nat i))"

text \<open>
  \<^verbatim>\<open>atoi\<close> as glibc has it: \<^verbatim>\<open>strtol\<close> in base 10, which stops at the first character
  that is no digit and saturates at the bounds of \<^verbatim>\<open>long\<close>, cut to the 32 bits of an
  \<^verbatim>\<open>int\<close>.
\<close>

definition digits_value :: "string \<Rightarrow> int" where
  "digits_value ds = foldl (\<lambda>a c. 10 * a + (of_char c - 48)) 0 ds"

definition atoi :: "string \<Rightarrow> int" where
  "atoi s =
     (let s1 = dropWhile isspace (c_str s);
          neg = (case s1 of [] \<Rightarrow> False | c # cs \<Rightarrow> c = CHR ''-'');
          s2 = (case s1 of [] \<Rightarrow> [] | c # cs \<Rightarrow> if c = CHR ''-'' \<or> c = CHR ''+'' then cs else s1);
          v = digits_value (takeWhile isdigit s2);
          l = (if neg then max (- (2 ^ 63)) (- v) else min (2 ^ 63 - 1) v)
      in sint (word_of_int l :: 32 word))"

section \<open>Reading the configuration (lines 293-419)\<close>

text \<open>
  A specification that starts with \<^verbatim>\<open>/\<close> is the path. Otherwise
  \<^verbatim>\<open>sscanf(spec, "%255[^:]:%511s", pool, subvol)\<close> must convert both fields: the pool is
  a non-empty run of characters other than the colon, the colon follows it, and the
  subvolume is a non-empty run of characters that are not white space, after optional
  white space.
\<close>

definition parse_storage_path :: "string \<Rightarrow> string option" where
  "parse_storage_path storage_spec =
     (case storage_spec of
        [] \<Rightarrow> None
      | c # _ \<Rightarrow>
          if c = CHR ''/'' then Some (take (MAX_PATH_LEN - 1) storage_spec)
          else
            (let pool = take 255 (takeWhile (\<lambda>x. x \<noteq> CHR '':'') storage_spec);
                 after_pool = drop (length pool) storage_spec
             in case after_pool of
                  [] \<Rightarrow> None
                | d # after_colon \<Rightarrow>
                    if pool = [] \<or> d \<noteq> CHR '':'' then None
                    else
                      (let subvol = take 511 (takeWhile (\<lambda>x. \<not> isspace x)
                                                (dropWhile isspace after_colon))
                       in if subvol = [] then None
                          else Some (take (MAX_PATH_LEN - 1) (''/'' @ pool @ ''/'' @ subvol)))))"

definition extract_storage_spec :: "string \<Rightarrow> nat \<Rightarrow> string option" where
  "extract_storage_spec line spec_len =
     (if CHR '':'' \<notin> set line then None
      else
        (let start = dropWhile isspace (tl (dropWhile (\<lambda>c. c \<noteq> CHR '':'') line));
             spec = (if CHR '','' \<in> set start then takeWhile (\<lambda>c. c \<noteq> CHR '','') start
                     else rev (dropWhile isspace (rev start)))
         in if length spec \<ge> spec_len then None else Some spec))"

text \<open>
  The loop of \<^verbatim>\<open>read_config\<close> over the lines read; \<open>None\<close> is the return of -1 for
  too many mount points.
\<close>

fun read_config_lines :: "string list \<Rightarrow> string list \<Rightarrow> int \<Rightarrow> (string list \<times> int) option" where
  "read_config_lines [] paths current_unprivileged = Some (paths, current_unprivileged)"
| "read_config_lines (buf # rest) paths current_unprivileged =
     (let line = takeWhile (\<lambda>c. c \<noteq> CHR 0x0A) (c_str buf) in
      if take 1 line = ''['' then Some (paths, current_unprivileged)
      else if strncmp_eq line ''unprivileged:'' 13
      then read_config_lines rest paths (atoi (dropWhile isspace (drop 13 line)))
      else if strncmp_eq line ''rootfs:'' 7 \<or> (strncmp_eq line ''mp'' 2 \<and> CHR '':'' \<in> set line)
      then (case extract_storage_spec line 512 of
              None \<Rightarrow> read_config_lines rest paths current_unprivileged
            | Some storage_spec \<Rightarrow>
                if length paths \<ge> MAX_PATHS then None
                else (case parse_storage_path storage_spec of
                        None \<Rightarrow> read_config_lines rest paths current_unprivileged
                      | Some temp_path \<Rightarrow>
                          if temp_path \<in> set paths
                          then read_config_lines rest paths current_unprivileged
                          else read_config_lines rest (paths @ [temp_path]) current_unprivileged))
      else read_config_lines rest paths current_unprivileged)"

definition read_config :: "world \<Rightarrow> path \<Rightarrow> (string list \<times> int) option" where
  "read_config w config_path =
     (case files w config_path of
        None \<Rightarrow> None
      | Some content \<Rightarrow> read_config_lines (fgets_lines MAX_LINE content) [] (- 1))"

section \<open>Config state patcher (lines 422-485)\<close>

definition flag_line :: "int \<Rightarrow> string" where
  "flag_line new_unprivileged = ''unprivileged: '' @ show_int new_unprivileged @ [CHR 0x0A]"

text \<open>
  The copy loop (lines 449-467): \<open>out\<close> is what has been written to the temporary file so
  far. \<^verbatim>\<open>fputs\<close> writes the buffer as a C string.
\<close>

fun copy_lines :: "int \<Rightarrow> string list \<Rightarrow> string \<Rightarrow> bool \<Rightarrow> bool \<Rightarrow> string \<times> bool" where
  "copy_lines new_unprivileged [] out updated in_snapshot = (out, updated)"
| "copy_lines new_unprivileged (line # rest) out updated in_snapshot =
     (if take 1 line = ''[''
      then (if \<not> updated \<and> \<not> in_snapshot
            then copy_lines new_unprivileged rest
                   (out @ flag_line new_unprivileged @ c_str line) True True
            else copy_lines new_unprivileged rest (out @ c_str line) updated True)
      else if \<not> in_snapshot \<and> strncmp_eq line ''unprivileged:'' 13
      then copy_lines new_unprivileged rest (out @ flag_line new_unprivileged) True in_snapshot
      else copy_lines new_unprivileged rest (out @ c_str line) updated in_snapshot)"

text \<open>What \<^verbatim>\<open>update_config\<close> writes to the temporary file for a given content.\<close>

definition patched_config :: "string \<Rightarrow> int \<Rightarrow> string" where
  "patched_config content new_unprivileged =
     (case copy_lines new_unprivileged (fgets_lines MAX_LINE content) [] False False of
        (out, updated) \<Rightarrow> if \<not> updated then out @ flag_line new_unprivileged else out)"

definition update_config :: "world \<Rightarrow> path \<Rightarrow> int \<Rightarrow> int \<times> world" where
  "update_config w config_path new_unprivileged =
     (let temp_path = config_path @ ''.tmp'' in
      if length config_path > MAX_PATH_LEN - 5 then (- 1, w)
      else
        (case files w config_path of
           None \<Rightarrow> (- 1, w)
         | Some content \<Rightarrow>
             if \<not> create_ok w temp_path then (- 1, emit (Sys_create temp_path) w)
             else
               (let out = patched_config content new_unprivileged;
                    w1 = emit (Sys_rename temp_path config_path) (emit (Sys_create temp_path) w)
                in if \<not> rename_ok w temp_path
                   then (- 1, (emit (Sys_unlink temp_path) w1)\<lparr>files := (files w)(temp_path := None)\<rparr>)
                   else (0, w1\<lparr>files := ((files w)(temp_path := None))(config_path \<mapsto> out)\<rparr>))))"

section \<open>The driver (lines 488-663)\<close>

definition is_container_running :: "world \<Rightarrow> int \<Rightarrow> bool" where
  "is_container_running w container_id =
     (let n = show_int container_id in
      if opendir_ok w (''/sys/fs/cgroup/lxc.monitor.'' @ n) then True
      else if opendir_ok w (''/sys/fs/cgroup/systemd/lxc/'' @ n) then True
      else if opendir_ok w (''/sys/fs/cgroup/lxc/'' @ n) then True
      else if system_rc w (''pct status '' @ n @ '' 2>/dev/null | grep -q '' @ [CHR 0x27]
                           @ ''status: running'' @ [CHR 0x27]) = 0 then True
      else if access_ok w (''/var/lock/lxc/var/lib/lxc/'' @ n) then True
      else False)"

text \<open>The target mode of the command line: the new flag and the offset (lines 563-572).\<close>

definition parse_mode :: "string \<Rightarrow> (int \<times> 32 word) option" where
  "parse_mode arg =
     (if arg = ''unprivileged'' then Some (1, UID_GID_OFFSET)
      else if arg = ''privileged'' then Some (0, - UID_GID_OFFSET)
      else None)"

definition initial_globals :: globals where
  "initial_globals =
     \<lparr>g_offset = 0, g_files_processed = 0, g_errors = 0, inode_table = (\<lambda>i. [])\<rparr>"

text \<open>The answer to the prompt (lines 620-625); \<open>None\<close> is an end of input.\<close>

definition answered_yes :: "string option \<Rightarrow> bool" where
  "answered_yes answer =
     (case answer of
        None \<Rightarrow> False
      | Some [] \<Rightarrow> False
      | Some (c # _) \<Rightarrow> c = CHR ''y'' \<or> c = CHR ''Y'')"

text \<open>
  \<^verbatim>\<open>main\<close>: the exit status and the world it leaves. \<open>argv\<close> holds the program name and
  the arguments, \<open>answer\<close> is the line read from the standard input and \<open>euid\<close> the
  effective user.
\<close>

definition main :: "world \<Rightarrow> string list \<Rightarrow> string option \<Rightarrow> uid_t \<Rightarrow> int \<times> world" where
  "main w argv answer euid =
     (if length argv \<noteq> 3 then (1, w)
      else
        (let container_num = atoi (argv ! 1) in
         if container_num \<le> 0 then (1, w)
         else
           (case parse_mode (argv ! 2) of
              None \<Rightarrow> (1, w)
            | Some (target_unprivileged, offset) \<Rightarrow>
                if is_container_running w container_num then (1, w)
                else
                  (let config_path = ''/etc/pve/lxc/'' @ show_int container_num @ ''.conf'' in
                   case read_config w config_path of
                     None \<Rightarrow> (1, w)
                   | Some (paths, current_unprivileged) \<Rightarrow>
                       if paths = [] then (1, w)
                       else if current_unprivileged \<noteq> - 1
                               \<and> current_unprivileged = target_unprivileged then (0, w)
                       else if \<not> answered_yes answer then (0, w)
                       else if euid \<noteq> 0 then (1, w)
                       else
                         (case convert_all initial_globals w paths offset 0 of
                            (overall_result, g, w1) \<Rightarrow>
                              if overall_result \<noteq> 0 then (1, w1)
                              else
                                (case update_config w1 config_path target_unprivileged of
                                   (r, w2) \<Rightarrow> if r = - 1 then (1, w2) else (0, w2)))))))"

section \<open>Observations on a run\<close>

text \<open>The events a step added to the trace.\<close>

definition new_events :: "world \<Rightarrow> world \<Rightarrow> event list" where
  "new_events w w' = drop (length (trace w)) (trace w')"

text \<open>The error lines: each of them makes the run fail.\<close>

fun is_error :: "event \<Rightarrow> bool" where
  "is_error (Err_stat p) = True"
| "is_error (Err_bounds p e) = True"
| "is_error (Err_chown p) = True"
| "is_error (Err_no_path p) = True"
| "is_error (Err_not_directory p) = True"
| "is_error (Err_walk p) = True"
| "is_error (Err_converting p) = True"
| "is_error e = False"

text \<open>The calls of \<^verbatim>\<open>update_config\<close> that create, rename or remove a file.\<close>

fun config_call :: "event \<Rightarrow> bool" where
  "config_call (Sys_create p) = True"
| "config_call (Sys_rename p q) = True"
| "config_call (Sys_unlink p) = True"
| "config_call e = False"

text \<open>The target path whose conversion an event announces (line 263).\<close>

fun attempted :: "event \<Rightarrow> path option" where
  "attempted (Out_converting p) = Some p"
| "attempted e = None"

text \<open>The number of error lines among some events.\<close>

definition errors_in :: "event list \<Rightarrow> nat" where
  "errors_in evs = length (filter is_error evs)"

text \<open>The calls that change an object, by kind, with the path they are made on.\<close>

datatype mutation = Chown | Chmod | Acl_write acl_type_t

fun mutation_of :: "event \<Rightarrow> (mutation \<times> path) option" where
  "mutation_of (Sys_lchown p u g) = Some (Chown, p)"
| "mutation_of (Sys_chmod p m) = Some (Chmod, p)"
| "mutation_of (Sys_acl_set p ty acl) = Some (Acl_write ty, p)"
| "mutation_of e = None"

text \<open>Whether an event is the mutation \<open>m\<close> of the object \<open>k\<close> (a device and an inode).\<close>

definition mutates :: "world \<Rightarrow> mutation \<Rightarrow> dev_t \<times> ino_t \<Rightarrow> event \<Rightarrow> bool" where
  "mutates w m k e =
     (case mutation_of e of None \<Rightarrow> False | Some (m', p) \<Rightarrow> m' = m \<and> names w p = Some k)"

definition applied :: "world \<Rightarrow> mutation \<Rightarrow> dev_t \<times> ino_t \<Rightarrow> event list \<Rightarrow> nat" where
  "applied w m k t = length (filter (mutates w m k) t)"


text \<open>The events of one ACL shift: the read, and the write if there is one.\<close>

definition acl_events :: "path \<Rightarrow> acl_type_t \<Rightarrow> event list \<Rightarrow> bool" where
  "acl_events p ty evs =
     (evs = [Sys_acl_get p ty] \<or> (\<exists>acl. evs = [Sys_acl_get p ty, Sys_acl_set p ty acl]))"

text \<open>The owner that \<^verbatim>\<open>lstat\<close> reports for a path.\<close>

definition owner_of :: "world \<Rightarrow> path \<Rightarrow> uid_t option" where
  "owner_of w p = map_option (\<lambda>(dev, ino, st). st_uid st) (lstat_of w p)"

text \<open>
  \<open>evolves w w'\<close>: \<open>w'\<close> is \<open>w\<close> after some calls; whatever is fixed for a run is the same
  in both.
\<close>

definition evolves :: "world \<Rightarrow> world \<Rightarrow> bool" where
  "evolves w w' = (\<exists>evs ino n. w' = w\<lparr>trace := trace w @ evs, inodes := ino, mallocs := n\<rparr>)"

text \<open>
  The invariant of a run in which every allocation succeeds: no mutation was applied
  twice to an object, and every object a mutation was applied to is in the hash set.
\<close>

definition once_inv :: "globals \<Rightarrow> world \<Rightarrow> bool" where
  "once_inv g w =
     (\<forall>m k. applied w m k (trace w) \<le> 1
        \<and> (0 < applied w m k (trace w) \<longrightarrow> inode_seen (inode_table g) (fst k) (snd k)))"






section \<open>Sample worlds\<close>

text \<open>A world where every call succeeds, no container runs and nothing exists yet.\<close>

definition quiet_world :: world where
  "quiet_world =
     \<lparr>names = (\<lambda>p. None), inodes = (\<lambda>k. None), files = (\<lambda>p. None), trace = [],
      mallocs = 0, malloc_ok = (\<lambda>n. True), lchown_ok = (\<lambda>p. True), chmod_ok = (\<lambda>p. True),
      acl_set_ok = (\<lambda>p ty. True), chown_mode = (\<lambda>m. m AND 62463),
      nftw_plan = (\<lambda>p. ([], False)), create_ok = (\<lambda>p. True), rename_ok = (\<lambda>p. True),
      opendir_ok = (\<lambda>p. False), system_rc = (\<lambda>c. 1), access_ok = (\<lambda>p. False)\<rparr>"

text \<open>The ACL of an object without named entries, and an object with that ACL.\<close>

definition plain_acl :: acl_t where
  "plain_acl =
     [\<lparr>e_tag = Some ACL_USER_OBJ, e_qualifier = None, e_settable = True\<rparr>,
      \<lparr>e_tag = Some ACL_GROUP_OBJ, e_qualifier = None, e_settable = True\<rparr>,
      \<lparr>e_tag = Some ACL_OTHER, e_qualifier = None, e_settable = True\<rparr>]"

definition plain_inode :: "uid_t \<Rightarrow> gid_t \<Rightarrow> mode_t \<Rightarrow> inode" where
  "plain_inode u g m =
     \<lparr>st_uid = u, st_gid = g, st_mode = m, acl_access = Inr plain_acl, acl_default = Inr [],
      link_to = None\<rparr>"

text \<open>The configuration of container 111, privileged and unprivileged.\<close>

definition conf_111 :: string where
  "conf_111 = ''arch: amd64'' @ [CHR 0x0A] @ ''rootfs: /root,size=8G'' @ [CHR 0x0A]
              @ ''unprivileged: 0'' @ [CHR 0x0A]"

definition conf_111_unprivileged :: string where
  "conf_111_unprivileged = ''arch: amd64'' @ [CHR 0x0A] @ ''rootfs: /root,size=8G'' @ [CHR 0x0A]
              @ ''unprivileged: 1'' @ [CHR 0x0A]"


text \<open>
  The tree \<^verbatim>\<open>root/{a, sub/{b}}\<close> where \<^verbatim>\<open>b\<close> is a hard link to \<^verbatim>\<open>a\<close> (owner 1000);
  the directories belong to root. Modes are octal 040755 and 0100644.
\<close>

definition hardlink_world :: world where
  "hardlink_world = quiet_world
     \<lparr>names := [''/root'' \<mapsto> (1, 2), ''/root/a'' \<mapsto> (1, 10), ''/root/sub'' \<mapsto> (1, 3),
                ''/root/sub/b'' \<mapsto> (1, 10)],
      inodes := [(1, 2) \<mapsto> plain_inode 0 0 16877, (1, 3) \<mapsto> plain_inode 0 0 16877,
                 (1, 10) \<mapsto> plain_inode 1000 1000 33188],
      files := [''/etc/pve/lxc/111.conf'' \<mapsto> conf_111],
      nftw_plan := (\<lambda>p. if p = ''/root''
                          then ([''/root'', ''/root/a'', ''/root/sub'', ''/root/sub/b''], False)
                          else ([], False))\<rparr>"

text \<open>The same tree when the walk enters \<^verbatim>\<open>sub\<close> before it reaches \<^verbatim>\<open>a\<close>.\<close>

definition hardlink_world_sub_first :: world where
  "hardlink_world_sub_first = hardlink_world
     \<lparr>nftw_plan := (\<lambda>p. if p = ''/root''
                          then ([''/root'', ''/root/sub'', ''/root/sub/b'', ''/root/a''], False)
                          else ([], False))\<rparr>"

text \<open>The container already recorded as unprivileged; the same while it is running.\<close>

definition converted_world :: world where
  "converted_world = hardlink_world
     \<lparr>files := [''/etc/pve/lxc/111.conf'' \<mapsto> conf_111_unprivileged]\<rparr>"

definition running_world :: world where
  "running_world = converted_world
     \<lparr>opendir_ok := (\<lambda>p. p = ''/sys/fs/cgroup/lxc.monitor.111'')\<rparr>"

text \<open>The tree with \<^verbatim>\<open>a\<close> owned by 4294967294, the largest owner a file can have.\<close>

definition wrap_world :: world where
  "wrap_world = hardlink_world
     \<lparr>inodes := [(1, 2) \<mapsto> plain_inode 0 0 16877, (1, 3) \<mapsto> plain_inode 0 0 16877,
                 (1, 10) \<mapsto> plain_inode 4294967294 0 33188]\<rparr>"

text \<open>The hard link tree, all owned by root, in a process whose allocations all fail.\<close>

definition no_memory_world :: world where
  "no_memory_world = hardlink_world
     \<lparr>inodes := [(1, 2) \<mapsto> plain_inode 0 0 16877, (1, 3) \<mapsto> plain_inode 0 0 16877,
                 (1, 10) \<mapsto> plain_inode 0 0 33188],
      malloc_ok := (\<lambda>n. False)\<rparr>"

text \<open>An access ACL that names the user 1000 and the group 1000.\<close>

definition named_acl :: acl_t where
  "named_acl =
     [\<lparr>e_tag = Some ACL_USER_OBJ, e_qualifier = None, e_settable = True\<rparr>,
      \<lparr>e_tag = Some ACL_USER, e_qualifier = Some 1000, e_settable = True\<rparr>,
      \<lparr>e_tag = Some ACL_GROUP_OBJ, e_qualifier = None, e_settable = True\<rparr>,
      \<lparr>e_tag = Some ACL_GROUP, e_qualifier = Some 1000, e_settable = True\<rparr>,
      \<lparr>e_tag = Some ACL_MASK, e_qualifier = None, e_settable = True\<rparr>,
      \<lparr>e_tag = Some ACL_OTHER, e_qualifier = None, e_settable = True\<rparr>]"

text \<open>A file with a named user and group in its ACL, and a symbolic link to it (mode 0120777).\<close>

definition acl_world :: world where
  "acl_world = quiet_world
     \<lparr>names := [''/ct/f'' \<mapsto> (1, 20), ''/ct/l'' \<mapsto> (1, 21)],
      inodes := [(1, 20) \<mapsto> (plain_inode 1000 1000 33188)\<lparr>acl_access := Inr named_acl\<rparr>,
                 (1, 21) \<mapsto> (plain_inode 0 0 41471)\<lparr>link_to := Some (1, 20)\<rparr>]\<rparr>"

text \<open>A file whose owner and group (400000) lie above the range of an unprivileged container.\<close>

definition overrange_world :: world where
  "overrange_world = quiet_world
     \<lparr>names := [''/ct/f'' \<mapsto> (1, 20)],
      inodes := [(1, 20) \<mapsto> plain_inode 400000 400000 33188]\<rparr>"

section \<open>Arithmetic of the identity shift\<close>

text \<open>
  The offset is a C \<^verbatim>\<open>int\<close>, read here with \<open>sint\<close>; owners and groups are unsigned 32-bit
  values, read with \<open>uint\<close>. The cast \<^verbatim>\<open>(uid_t)(-offset)\<close> of a negative offset is its
  magnitude.
\<close>

lemma uint_nonneg_offset:
  fixes off :: "32 word"
  assumes "0 \<le> sint off"
  shows "uint off = sint off"
proof -
  have "sint off < 2 ^ 31" using sint_lt[of off] by simp
  then have "sint off mod 2 ^ 32 = sint off" using assms by simp
  then show ?thesis using uint_sint[of off] by (simp add: take_bit_eq_mod)
qed

lemma uint_neg_offset:
  fixes off :: "32 word"
  assumes "sint off < 0"
  shows "uint (- off) = - sint off"
proof -
  have ge: "- (2 ^ 31) \<le> sint off" using sint_ge[of off] by simp
  have "uint (- off) = (- uint off) mod 2 ^ 32" by (simp add: uint_word_ariths)
  also have "\<dots> = (- (sint off mod 2 ^ 32)) mod 2 ^ 32"
    using uint_sint[of off] by (simp add: take_bit_eq_mod)
  also have "\<dots> = (- sint off) mod 2 ^ 32" by (simp add: mod_minus_eq)
  also have "\<dots> = - sint off" using assms ge by simp
  finally show ?thesis .
qed

lemma uint_sub_le:
  fixes a b :: "32 word"
  shows "uint b \<le> uint a \<Longrightarrow> uint (a - b) = uint a - uint b"
  by (simp add: uint_sub_if')

lemma sint_small_offset:
  "- 200000 \<le> k \<Longrightarrow> k \<le> 200000 \<Longrightarrow> sint (word_of_int k :: 32 word) = k"
  by (simp add: sint_sbintrunc' signed_take_bit_int_eq_self)

lemma uint_small_offset:
  "0 \<le> k \<Longrightarrow> k \<le> 200000 \<Longrightarrow> uint (word_of_int k :: 32 word) = k"
  by (simp add: uint_word_of_int take_bit_int_eq_self)

lemma uint_add_small:
  fixes u :: "32 word"
  assumes "0 \<le> k" "uint u + k \<le> 200000"
  shows "uint (u + word_of_int k) = uint u + k"
proof -
  have "uint (u + word_of_int k) = (uint u + k) mod 2 ^ 32"
    using assms by (simp add: uint_word_ariths uint_word_of_int mod_add_right_eq)
  also have "\<dots> = uint u + k" using assms by simp
  finally show ?thesis .
qed

lemma shift_qualifier_round_trip:
  fixes u :: "32 word"
  assumes "0 \<le> k" "uint u + k \<le> uint MAX_UID_GID"
  shows "shift_qualifier (word_of_int k) u = Some (u + word_of_int k)"
    and "shift_qualifier (word_of_int (- k)) (u + word_of_int k) = Some u"
proof -
  have b: "uint u + k \<le> 200000" using assms by (simp add: MAX_UID_GID_def)
  have k: "k \<le> 200000" using b uint_ge_0[of u] by linarith
  have le: "\<not> (200000 :: 32 word) < u + word_of_int k"
    using uint_add_small[OF assms(1) b] b by (simp add: word_less_def)
  show "shift_qualifier (word_of_int k) u = Some (u + word_of_int k)"
    using le assms k by (simp add: shift_qualifier_def sint_small_offset MAX_UID_GID_def Let_def)
  show "shift_qualifier (word_of_int (- k)) (u + word_of_int k) = Some u"
  proof (cases "k = 0")
    case True
    then show ?thesis using le by (simp add: shift_qualifier_def MAX_UID_GID_def)
  next
    case False
    then have neg: "sint (word_of_int (- k) :: 32 word) < 0"
      using assms k sint_small_offset[of "- k"] by simp
    have "\<not> u + word_of_int k < word_of_int k"
      using uint_add_small[OF assms(1) b] assms k by (simp add: word_less_def uint_small_offset)
    then show ?thesis using neg by (simp add: shift_qualifier_def)
  qed
qed

text \<open>The owner and the group of an object go through the same arithmetic as a qualifier.\<close>

lemma new_ids_shift_qualifier:
  "new_ids offset uid gid =
     (case (shift_qualifier offset uid, shift_qualifier offset gid) of
        (Some nu, Some ng) \<Rightarrow> Inr (nu, ng)
      | _ \<Rightarrow> Inl (if sint offset < 0 then IdentityUnderflow else IdentityOverflow))"
  by (simp add: new_ids_def shift_qualifier_def Let_def)

text \<open>
  Claim C5. For an owner or group \<open>u\<close> and an offset \<open>k \<ge> 0\<close> with \<open>u + k \<le> MAX_ID\<close>,
  shifting by \<open>+k\<close> and then by \<open>-k\<close> gives \<open>u\<close> back, and neither shift reports a bounds
  error. This holds for the owner and group of an object (\<open>new_ids\<close>) and for an ACL
  qualifier (\<open>shift_qualifier\<close>); the shifted value is \<open>u + k\<close> as an integer.
\<close>

theorem C5_shift_round_trip:
  fixes u g :: "32 word" and k :: int
  assumes "0 \<le> k" and "uint u + k \<le> uint MAX_UID_GID" and "uint g + k \<le> uint MAX_UID_GID"
  shows "new_ids (word_of_int k) u g = Inr (u + word_of_int k, g + word_of_int k)
       \<and> new_ids (word_of_int (- k)) (u + word_of_int k) (g + word_of_int k) = Inr (u, g)
       \<and> shift_qualifier (word_of_int k) u = Some (u + word_of_int k)
       \<and> shift_qualifier (word_of_int (- k)) (u + word_of_int k) = Some u
       \<and> uint (u + word_of_int k) = uint u + k"
proof -
  note su = shift_qualifier_round_trip[OF assms(1,2)]
  note sg = shift_qualifier_round_trip[OF assms(1,3)]
  have "uint (u + word_of_int k) = uint u + k"
    using uint_add_small[OF assms(1)] assms(2) by (simp add: MAX_UID_GID_def)
  then show ?thesis
    using su sg by (simp add: new_ids_shift_qualifier)
qed

theorem C5_shift_round_trip_witness:
  "new_ids 100000 1000 1000 = Inr (101000, 101000)
   \<and> new_ids (- 100000) 101000 101000 = Inr (1000, 1000)
   \<and> shift_qualifier 100000 1000 = Some 101000
   \<and> shift_qualifier (- 100000) 101000 = Some 1000"
  using C5_shift_round_trip[of 100000 1000 1000] by (simp add: MAX_UID_GID_def)

section \<open>What a step leaves unchanged\<close>

text \<open>Every step only appends to the trace, changes inodes and counts allocations.\<close>

lemma evolves_refl: "evolves w w"
  unfolding evolves_def by (rule exI[of _ "[]"], rule exI[of _ "inodes w"], rule exI[of _ "mallocs w"]) simp

lemma evolves_trans: "evolves w w' \<Longrightarrow> evolves w' w'' \<Longrightarrow> evolves w w''"
  unfolding evolves_def
proof -
  assume "\<exists>evs ino n. w' = w\<lparr>trace := trace w @ evs, inodes := ino, mallocs := n\<rparr>"
    and "\<exists>evs ino n. w'' = w'\<lparr>trace := trace w' @ evs, inodes := ino, mallocs := n\<rparr>"
  then obtain e1 i1 n1 e2 i2 n2 where
    a: "w' = w\<lparr>trace := trace w @ e1, inodes := i1, mallocs := n1\<rparr>" and
    b: "w'' = w'\<lparr>trace := trace w' @ e2, inodes := i2, mallocs := n2\<rparr>" by blast
  have "w'' = w\<lparr>trace := trace w @ (e1 @ e2), inodes := i2, mallocs := n2\<rparr>"
    by (simp add: a b)
  then show "\<exists>evs ino n. w'' = w\<lparr>trace := trace w @ evs, inodes := ino, mallocs := n\<rparr>"
    by blast
qed

lemma evolvesI: "w' = w\<lparr>trace := trace w @ evs, inodes := ino, mallocs := n\<rparr> \<Longrightarrow> evolves w w'"
  unfolding evolves_def by blast

lemma evolves_emit: "evolves w (emit e w)"
  by (rule evolvesI[where evs = "[e]" and ino = "inodes w" and n = "mallocs w"]) (simp add: emit_def)

lemma evolves_inodes: "evolves w (w\<lparr>inodes := i\<rparr>)"
  by (rule evolvesI[where evs = "[]" and ino = i and n = "mallocs w"]) simp

lemma evolves_mallocs: "evolves w (w\<lparr>mallocs := n\<rparr>)"
  by (rule evolvesI[where evs = "[]" and ino = "inodes w" and n = n]) simp

lemma evolves_static:
  assumes "evolves w w'"
  shows "names w' = names w" "files w' = files w" "malloc_ok w' = malloc_ok w"
    "lchown_ok w' = lchown_ok w" "chmod_ok w' = chmod_ok w" "acl_set_ok w' = acl_set_ok w"
    "chown_mode w' = chown_mode w" "nftw_plan w' = nftw_plan w" "create_ok w' = create_ok w"
    "rename_ok w' = rename_ok w" "opendir_ok w' = opendir_ok w" "system_rc w' = system_rc w"
    "access_ok w' = access_ok w"
  using assms unfolding evolves_def by auto

lemma evolves_trace: "evolves w w' \<Longrightarrow> trace w' = trace w @ new_events w w'"
  unfolding evolves_def new_events_def by auto

lemma new_events_trans:
  "evolves w w' \<Longrightarrow> evolves w' w'' \<Longrightarrow> new_events w w'' = new_events w w' @ new_events w' w''"
  unfolding evolves_def new_events_def by auto

lemma new_events_emit: "new_events w (emit e w) = [e]"
  by (simp add: new_events_def emit_def)

lemma new_events_refl: "new_events w w = []"
  by (simp add: new_events_def)

section \<open>The results of the system calls\<close>

lemma sys_lchown_cases:
  obtains (failed) "sys_lchown w p u g = (False, emit (Sys_lchown p u g) w)"
  | (changed) dev ino st where "lstat_of w p = Some (dev, ino, st)" "lchown_ok w p"
      "sys_lchown w p u g = (True, (emit (Sys_lchown p u g) w)\<lparr>inodes := (inodes w)((dev, ino) \<mapsto>
          st\<lparr>st_uid := u, st_gid := g, st_mode := chown_mode w (st_mode st)\<rparr>)\<rparr>)"
  by (cases "lstat_of w p"; cases "lchown_ok w p") (auto simp: sys_lchown_def Let_def emit_def)

lemma sys_lchown_evolves: "evolves w (snd (sys_lchown w p u g))"
  by (cases rule: sys_lchown_cases[of w p u g])
     (auto intro: evolves_emit evolves_trans[OF evolves_emit evolves_inodes])

lemma sys_lchown_events: "new_events w (snd (sys_lchown w p u g)) = [Sys_lchown p u g]"
  by (cases rule: sys_lchown_cases[of w p u g]) (auto simp: new_events_def emit_def)

lemma sys_chmod_cases:
  obtains (failed) "sys_chmod w p m = (False, emit (Sys_chmod p m) w)"
  | (changed) k st where "resolve w p = Some k" "inodes w k = Some st" "chmod_ok w p"
      "sys_chmod w p m = (True, (emit (Sys_chmod p m) w)\<lparr>inodes := (inodes w)(k \<mapsto>
          st\<lparr>st_mode := (st_mode st AND S_IFMT) OR (m AND 4095)\<rparr>)\<rparr>)"
  by (cases "resolve w p"; cases "inodes w (the (resolve w p))"; cases "chmod_ok w p")
     (auto simp: sys_chmod_def Let_def emit_def)

lemma sys_chmod_evolves: "evolves w (snd (sys_chmod w p m))"
  by (cases rule: sys_chmod_cases[of w p m])
     (auto intro: evolves_emit evolves_trans[OF evolves_emit evolves_inodes])

lemma sys_chmod_events: "new_events w (snd (sys_chmod w p m)) = [Sys_chmod p m]"
  by (cases rule: sys_chmod_cases[of w p m]) (auto simp: new_events_def emit_def)

lemma acl_set_file_cases:
  obtains (failed) "acl_set_file w p ty acl = (False, emit (Sys_acl_set p ty acl) w)"
  | (changed) k st where "resolve w p = Some k" "inodes w k = Some st" "acl_set_ok w p ty"
      "acl_set_file w p ty acl = (True, (emit (Sys_acl_set p ty acl) w)\<lparr>inodes := (inodes w)(k \<mapsto>
          set_acl_slot ty acl st)\<rparr>)"
  by (cases "resolve w p"; cases "inodes w (the (resolve w p))"; cases "acl_set_ok w p ty")
     (auto simp: acl_set_file_def Let_def emit_def)

lemma acl_set_file_evolves: "evolves w (snd (acl_set_file w p ty acl))"
  by (cases rule: acl_set_file_cases[of w p ty acl])
     (auto intro: evolves_emit evolves_trans[OF evolves_emit evolves_inodes])

lemma acl_set_file_events: "new_events w (snd (acl_set_file w p ty acl)) = [Sys_acl_set p ty acl]"
  by (cases rule: acl_set_file_cases[of w p ty acl]) (auto simp: new_events_def emit_def)

lemma acl_get_file_world: "snd (acl_get_file w p ty) = emit (Sys_acl_get p ty) w"
  by (simp add: acl_get_file_def)

section \<open>The ways through the ACL shift\<close>

lemma shift_acl_alt:
  "shift_acl w p ty off =
     (let w1 = emit (Sys_acl_get p ty) w in
      case fst (acl_get_file w p ty) of
        Inl err \<Rightarrow> if err = ENOTSUP \<or> err = ENOSYS then (0, w1) else (- 1, w1)
      | Inr acl \<Rightarrow>
          (case shift_entries off acl False of
             None \<Rightarrow> (- 1, w1)
           | Some (acl', needs_update) \<Rightarrow>
               if needs_update
               then (if fst (acl_set_file w1 p ty acl') then 0 else - 1,
                     snd (acl_set_file w1 p ty acl'))
               else (0, w1)))"
  by (simp add: shift_acl_def acl_get_file_def Let_def split: sum.splits option.splits prod.splits bool.splits)

lemma shift_acl_cases:
  obtains
    (unsupported) err where "fst (acl_get_file w p ty) = Inl err" "err = ENOTSUP \<or> err = ENOSYS"
      "shift_acl w p ty off = (0, emit (Sys_acl_get p ty) w)"
  | (get_failed) err where "fst (acl_get_file w p ty) = Inl err" "err \<noteq> ENOTSUP" "err \<noteq> ENOSYS"
      "shift_acl w p ty off = (- 1, emit (Sys_acl_get p ty) w)"
  | (aborted) acl where "fst (acl_get_file w p ty) = Inr acl" "shift_entries off acl False = None"
      "shift_acl w p ty off = (- 1, emit (Sys_acl_get p ty) w)"
  | (untouched) acl acl' where "fst (acl_get_file w p ty) = Inr acl"
      "shift_entries off acl False = Some (acl', False)"
      "shift_acl w p ty off = (0, emit (Sys_acl_get p ty) w)"
  | (written) acl acl' ok where "fst (acl_get_file w p ty) = Inr acl"
      "shift_entries off acl False = Some (acl', True)"
      "shift_acl w p ty off = (if ok then 0 else - 1, snd (acl_set_file (emit (Sys_acl_get p ty) w) p ty acl'))"
      "ok = fst (acl_set_file (emit (Sys_acl_get p ty) w) p ty acl')"
proof (cases "fst (acl_get_file w p ty)")
  case (Inl err)
  then show ?thesis
    using unsupported[of err] get_failed[of err]
    by (cases "err = ENOTSUP \<or> err = ENOSYS") (simp_all add: shift_acl_alt)
next
  case (Inr acl)
  show ?thesis
  proof (cases "shift_entries off acl False")
    case None
    then show ?thesis using Inr aborted[of acl] by (simp add: shift_acl_alt)
  next
    case (Some r)
    obtain acl' n where r: "r = (acl', n)" by (cases r)
    show ?thesis
    proof (cases n)
      case False
      then show ?thesis using Inr Some r untouched[of acl acl'] by (simp add: shift_acl_alt)
    next
      case True
      then show ?thesis using Inr Some r written[of acl acl'] by (simp add: shift_acl_alt)
    qed
  qed
qed


lemma shift_acl_evolves: "evolves w (snd (shift_acl w p ty off))"
  by (cases rule: shift_acl_cases[of w p ty off])
     (auto intro: evolves_emit evolves_trans[OF evolves_emit acl_set_file_evolves])

section \<open>The loop over the ACL entries\<close>







section \<open>The ways through the object converter\<close>

lemma inode_mark_seen_world: "snd (inode_mark_seen tbl w dev ino) = w\<lparr>mallocs := mallocs w + 1\<rparr>"
  by (simp add: inode_mark_seen_def Let_def)

lemma restore_and_shift_evolves: "evolves w (restore_and_shift w p st off)"
  unfolding restore_and_shift_def Let_def
  by (auto intro: evolves_trans[OF sys_chmod_evolves shift_acl_evolves]
      evolves_trans[OF evolves_trans[OF sys_chmod_evolves shift_acl_evolves] shift_acl_evolves])

lemma process_file_cases:
  obtains
    (stat_error) "lstat_of w fpath = None"
      "process_file g w fpath =
         (0, g\<lparr>g_errors := g_errors g + 1\<rparr>, emit (Err_stat fpath) (emit (Sys_lstat fpath) w))"
  | (seen) dev ino st where "lstat_of w fpath = Some (dev, ino, st)"
      "inode_seen (inode_table g) dev ino"
      "process_file g w fpath = (0, g, emit (Sys_lstat fpath) w)"
  | (bounds) dev ino st tbl w1 err where "lstat_of w fpath = Some (dev, ino, st)"
      "\<not> inode_seen (inode_table g) dev ino"
      "inode_mark_seen (inode_table g) (emit (Sys_lstat fpath) w) dev ino = (tbl, w1)"
      "new_ids (g_offset g) (st_uid st) (st_gid st) = Inl err"
      "process_file g w fpath =
         (1, g\<lparr>inode_table := tbl, g_errors := g_errors g + 1\<rparr>, emit (Err_bounds fpath err) w1)"
  | (chown_error) dev ino st tbl w1 new_uid new_gid w2 where
      "lstat_of w fpath = Some (dev, ino, st)"
      "\<not> inode_seen (inode_table g) dev ino"
      "inode_mark_seen (inode_table g) (emit (Sys_lstat fpath) w) dev ino = (tbl, w1)"
      "new_ids (g_offset g) (st_uid st) (st_gid st) = Inr (new_uid, new_gid)"
      "sys_lchown w1 fpath new_uid new_gid = (False, w2)"
      "process_file g w fpath =
         (0, g\<lparr>inode_table := tbl, g_errors := g_errors g + 1\<rparr>, emit (Err_chown fpath) w2)"
  | (converted) dev ino st tbl w1 new_uid new_gid w2 where
      "lstat_of w fpath = Some (dev, ino, st)"
      "\<not> inode_seen (inode_table g) dev ino"
      "inode_mark_seen (inode_table g) (emit (Sys_lstat fpath) w) dev ino = (tbl, w1)"
      "new_ids (g_offset g) (st_uid st) (st_gid st) = Inr (new_uid, new_gid)"
      "sys_lchown w1 fpath new_uid new_gid = (True, w2)"
      "process_file g w fpath =
         (0, g\<lparr>inode_table := tbl, g_files_processed := g_files_processed g + 1\<rparr>,
          if \<not> S_ISLNK (st_mode st) then restore_and_shift w2 fpath st (g_offset g) else w2)"
proof (cases "lstat_of w fpath")
  case None
  then show ?thesis using stat_error by (simp add: process_file_def sys_lstat_def)
next
  case (Some r)
  obtain dev ino st where r: "r = (dev, ino, st)" by (cases r)
  show ?thesis
  proof (cases "inode_seen (inode_table g) dev ino")
    case True
    then show ?thesis using Some r seen[of dev ino st] by (simp add: process_file_def sys_lstat_def)
  next
    case False
    obtain tbl w1 where m: "inode_mark_seen (inode_table g) (emit (Sys_lstat fpath) w) dev ino = (tbl, w1)"
      by (cases "inode_mark_seen (inode_table g) (emit (Sys_lstat fpath) w) dev ino")
    show ?thesis
    proof (cases "new_ids (g_offset g) (st_uid st) (st_gid st)")
      case (Inl err)
      then show ?thesis using Some r False m bounds[of dev ino st tbl w1 err]
        by (simp add: process_file_def sys_lstat_def)
    next
      case (Inr ids)
      obtain new_uid new_gid where ids: "ids = (new_uid, new_gid)" by (cases ids)
      obtain ok w2 where c: "sys_lchown w1 fpath new_uid new_gid = (ok, w2)"
        by (cases "sys_lchown w1 fpath new_uid new_gid")
      show ?thesis
      proof (cases ok)
        case True
        then show ?thesis
          using Some r False m Inr ids c converted[of dev ino st tbl w1 new_uid new_gid w2]
          by (simp add: process_file_def sys_lstat_def)
      next
        case False
        then show ?thesis
          using Some r \<open>\<not> inode_seen (inode_table g) dev ino\<close> m Inr ids c
            chown_error[of dev ino st tbl w1 new_uid new_gid w2]
          by (simp add: process_file_def sys_lstat_def)
      qed
    qed
  qed
qed


text \<open>A conversion that returns 1 ends the walk: no later entry is visited.\<close>

lemma bounds_error_stops_walk:
  "process_file g w fpath = (1, g', w') \<Longrightarrow> nftw_walk g w (fpath # rest) = (1, g', w')"
  by simp

lemma lstat_of_emit [simp]: "lstat_of (emit e w) p = lstat_of w p"
  by (simp add: lstat_of_def emit_def cong: option.case_cong)

lemma lstat_of_mallocs [simp]: "lstat_of (w\<lparr>mallocs := n\<rparr>) p = lstat_of w p"
  by (simp add: lstat_of_def cong: option.case_cong)


lemma new_ids_underflow_iff:
  "new_ids offset uid gid = Inl IdentityUnderflow \<longleftrightarrow>
     sint offset < 0 \<and> (uint uid < - sint offset \<or> uint gid < - sint offset)"
  by (auto simp: new_ids_def Let_def word_less_def uint_neg_offset)

lemma new_ids_overflow_iff:
  "new_ids offset uid gid = Inl IdentityOverflow \<longleftrightarrow>
     0 \<le> sint offset \<and>
     (uint MAX_UID_GID < (uint uid + sint offset) mod 2 ^ 32 \<or>
      uint MAX_UID_GID < (uint gid + sint offset) mod 2 ^ 32)"
  by (auto simp: new_ids_def Let_def word_less_def uint_word_ariths uint_nonneg_offset)

lemma new_ids_error_iff:
  "(\<exists>err. new_ids offset uid gid = Inl err) \<longleftrightarrow>
     (sint offset < 0 \<and> (uint uid < - sint offset \<or> uint gid < - sint offset)) \<or>
     (0 \<le> sint offset \<and>
       (uint MAX_UID_GID < (uint uid + sint offset) mod 2 ^ 32 \<or>
        uint MAX_UID_GID < (uint gid + sint offset) mod 2 ^ 32))"
proof -
  have "(\<exists>err. new_ids offset uid gid = Inl err) \<longleftrightarrow>
          new_ids offset uid gid = Inl IdentityUnderflow \<or> new_ids offset uid gid = Inl IdentityOverflow"
    by (metis id_error.exhaust)
  then show ?thesis unfolding new_ids_underflow_iff new_ids_overflow_iff by blast
qed



text \<open>
  Claim C2 as stated fails: with the offset -100000, an object owned by 400000 is given
  the owner 300000, above MAX_ID, and the conversion goes on (return value 0).
\<close>

theorem C2_counterexample:
  "sint (- 100000 :: 32 word) < 0
   \<and> fst (process_file (initial_globals\<lparr>g_offset := - 100000\<rparr>) overrange_world ''/ct/f'') = 0
   \<and> Sys_lchown ''/ct/f'' 300000 300000 \<in>
       set (trace (snd (snd (process_file (initial_globals\<lparr>g_offset := - 100000\<rparr>)
                               overrange_world ''/ct/f''))))
   \<and> map_option (st_uid \<circ> snd \<circ> snd)
        (lstat_of (snd (snd (process_file (initial_globals\<lparr>g_offset := - 100000\<rparr>)
                               overrange_world ''/ct/f''))) ''/ct/f'') = Some 300000
   \<and> MAX_UID_GID < (300000 :: 32 word)"
  by code_simp

text \<open>
  Claim C2, as amended. For an object that reaches the bounds check (its \<^verbatim>\<open>lstat\<close>
  succeeds and its inode has not been seen):
  \<^item> with a negative offset the conversion is fatal exactly when the owner or the group is
    below the magnitude of the offset; nothing bounds the result from above;
  \<^item> with an offset that is not negative, and sums that fit 32 bits, it is fatal exactly
    when the new owner or the new group exceeds MAX_ID;
  \<^item> a fatal conversion returns 1 (the walk stops), counts one error, prints the bounds
    error and changes no inode.
\<close>

theorem C2_bounds_policy:
  assumes "lstat_of w fpath = Some (dev, ino, st)" and "\<not> inode_seen (inode_table g) dev ino"
    and "process_file g w fpath = (r, g', w')"
  shows "(sint (g_offset g) < 0 \<longrightarrow>
            (r = 1 \<longleftrightarrow> uint (st_uid st) < - sint (g_offset g) \<or> uint (st_gid st) < - sint (g_offset g)))
       \<and> (0 \<le> sint (g_offset g) \<and> uint (st_uid st) + sint (g_offset g) < 2 ^ 32
            \<and> uint (st_gid st) + sint (g_offset g) < 2 ^ 32 \<longrightarrow>
            (r = 1 \<longleftrightarrow> uint MAX_UID_GID < uint (st_uid st) + sint (g_offset g)
                      \<or> uint MAX_UID_GID < uint (st_gid st) + sint (g_offset g)))
       \<and> (r = 1 \<longrightarrow> g_errors g' = g_errors g + 1 \<and> inodes w' = inodes w
             \<and> (\<exists>err. new_events w w' = [Sys_lstat fpath, Err_bounds fpath err]))
       \<and> (r = 0 \<or> r = 1)"
proof -
  have nowrap: "\<And>x. 0 \<le> sint (g_offset g) \<Longrightarrow> uint x + sint (g_offset g) < 2 ^ 32 \<Longrightarrow>
      (uint (x :: 32 word) + sint (g_offset g)) mod 2 ^ 32 = uint x + sint (g_offset g)"
    by simp
  show ?thesis
  proof (cases rule: process_file_cases[of w fpath g])
    case stat_error
    then show ?thesis using assms by simp
  next
    case (seen dev' ino' st')
    then show ?thesis using assms by simp
  next
    case (bounds dev' ino' st' tbl w1 err)
    have w1: "w1 = (emit (Sys_lstat fpath) w)\<lparr>mallocs := mallocs w + 1\<rparr>"
      using inode_mark_seen_world[of "inode_table g" "emit (Sys_lstat fpath) w" dev' ino'] bounds(3)
      by (simp add: emit_def)
    have e: "\<exists>err. new_ids (g_offset g) (st_uid st) (st_gid st) = Inl err"
      using bounds assms by auto
    have r: "r = 1" "g_errors g' = g_errors g + 1" "inodes w' = inodes w"
      "new_events w w' = [Sys_lstat fpath, Err_bounds fpath err]"
      using bounds assms w1 by (auto simp: new_events_def emit_def)
    show ?thesis using e[unfolded new_ids_error_iff] r nowrap by auto
  next
    case (chown_error dev' ino' st' tbl w1 new_uid new_gid w2)
    then have e: "\<not> (\<exists>err. new_ids (g_offset g) (st_uid st) (st_gid st) = Inl err)"
      and r: "r = 0" using assms by auto
    show ?thesis using e[unfolded new_ids_error_iff] r nowrap by auto
  next
    case (converted dev' ino' st' tbl w1 new_uid new_gid w2)
    then have e: "\<not> (\<exists>err. new_ids (g_offset g) (st_uid st) (st_gid st) = Inl err)"
      and r: "r = 0" using assms by auto
    show ?thesis using e[unfolded new_ids_error_iff] r nowrap by auto
  qed
qed

theorem C2_bounds_policy_witness:
  "sint (- 100000 :: 32 word) < 0
   \<and> fst (process_file (initial_globals\<lparr>g_offset := - 100000\<rparr>) acl_world ''/ct/f'') = 1"
proof -
  let ?g = "initial_globals\<lparr>g_offset := - 100000\<rparr>"
  let ?res = "process_file ?g acl_world ''/ct/f''"
  have l: "lstat_of acl_world ''/ct/f'' =
             Some (1, 20, (plain_inode 1000 1000 33188)\<lparr>acl_access := Inr named_acl\<rparr>)"
    by code_simp
  have n: "\<not> inode_seen (inode_table ?g) 1 20" by code_simp
  have run: "?res = (fst ?res, fst (snd ?res), snd (snd ?res))" by simp
  from C2_bounds_policy[OF l n run] show ?thesis by (simp add: plain_inode_def)
qed

section \<open>The configuration patcher\<close>













lemma tmp_path_differs: "p @ ''.tmp'' \<noteq> p"
  by simp




section \<open>Whole runs on the sample trees\<close>

text \<open>
  Claim C9 as stated fails on the processed count: the walk hands four entries to the
  converter (the root, \<^verbatim>\<open>a\<close>, \<^verbatim>\<open>sub\<close>, \<^verbatim>\<open>b\<close>); three are converted and counted, and
  the second link to the inode is skipped before the counter (line 191).
\<close>

theorem C9_counterexample:
  "g_files_processed (fst (snd (convert_path initial_globals hardlink_world ''/root'' 100000))) = 3
   \<and> g_files_processed (fst (snd (convert_path initial_globals hardlink_world ''/root'' 100000))) \<noteq> 2"
  by code_simp

text \<open>
  Claim C9, as amended. In the scenario, in either order of the two siblings, the
  conversion succeeds, \<^verbatim>\<open>a\<close> and \<^verbatim>\<open>b\<close> both report the owner 101000, the chain of the
  inode in the hash set holds the inode once, \<^verbatim>\<open>lchown\<close> was called once on the inode, and
  the processed count is 3 with no error.
\<close>

theorem C9_hardlink_scenario:
  "(let (r, g, w') = convert_path initial_globals hardlink_world ''/root'' 100000
    in r = 0 \<and> owner_of w' ''/root/a'' = Some 101000 \<and> owner_of w' ''/root/sub/b'' = Some 101000
       \<and> inode_table g (inode_hash 1 10) = [(1, 10)]
       \<and> applied hardlink_world Chown (1, 10) (trace w') = 1
       \<and> g_files_processed g = 3 \<and> g_errors g = 0)
   \<and> (let (r, g, w') = convert_path initial_globals hardlink_world_sub_first ''/root'' 100000
    in r = 0 \<and> owner_of w' ''/root/a'' = Some 101000 \<and> owner_of w' ''/root/sub/b'' = Some 101000
       \<and> inode_table g (inode_hash 1 10) = [(1, 10)]
       \<and> applied hardlink_world_sub_first Chown (1, 10) (trace w') = 1
       \<and> g_files_processed g = 3 \<and> g_errors g = 0)"
  by code_simp

text \<open>
  Claim C10 as stated fails on the exit status: the configuration records the target
  state, the container is running, and \<^verbatim>\<open>main\<close> returns 1 (lines 575-580).
\<close>

theorem C10_counterexample:
  "read_config running_world ''/etc/pve/lxc/111.conf'' = Some ([''/root''], 1)
   \<and> parse_mode ''unprivileged'' = Some (1, UID_GID_OFFSET)
   \<and> fst (main running_world [''privconvert'', ''111'', ''unprivileged''] (Some ''y'') 0) = 1"
  by code_simp

text \<open>
  Claim C10, as amended. When the command line is well formed and the primary section of
  the configuration records the requested target state, \<^verbatim>\<open>main\<close> leaves the world as it
  is: no call on any object, no configuration written. Its exit status is 0 when moreover
  the container number is positive, the container is not running and the configuration
  names at least one file system, and 1 otherwise.
\<close>

theorem C10_already_in_target_state:
  assumes "length argv = 3" and "parse_mode (argv ! 2) = Some (target, offset)"
    and "read_config w (''/etc/pve/lxc/'' @ show_int (atoi (argv ! 1)) @ ''.conf'') = Some (paths, target)"
  shows "snd (main w argv answer euid) = w
       \<and> fst (main w argv answer euid) =
           (if 0 < atoi (argv ! 1) \<and> \<not> is_container_running w (atoi (argv ! 1)) \<and> paths \<noteq> []
            then 0 else 1)"
proof -
  have "target = 0 \<or> target = 1" using assms(2) by (auto simp: parse_mode_def split: if_splits)
  then have t: "target \<noteq> - 1" by auto
  show ?thesis using assms t by (simp add: main_def Let_def)
qed

theorem C10_already_in_target_state_witness:
  "fst (main converted_world [''privconvert'', ''111'', ''unprivileged''] (Some ''y'') 0) = 0
   \<and> snd (main converted_world [''privconvert'', ''111'', ''unprivileged''] (Some ''y'') 0) = converted_world"
proof -
  let ?argv = "[''privconvert'', ''111'', ''unprivileged'']"
  have a: "length ?argv = 3" by simp
  have b: "parse_mode (?argv ! 2) = Some (1, UID_GID_OFFSET)" by code_simp
  have c: "read_config converted_world (''/etc/pve/lxc/'' @ show_int (atoi (?argv ! 1)) @ ''.conf'')
             = Some ([''/root''], 1)" by code_simp
  have d: "0 < atoi (?argv ! 1)" by code_simp
  have e: "\<not> is_container_running converted_world (atoi (?argv ! 1))" by code_simp
  from C10_already_in_target_state[OF a b c, of "Some ''y''" 0] d e show ?thesis by simp
qed

text \<open>
  Claim C3 on a file owned by 4294967294, converted with the offset +100000. The new owner
  would be 4295067294, above MAX_ID; the 32-bit sum is 99998, the check of line 209 passes,
  the file is given to 99998, no error is reported, the run succeeds and the configuration
  is rewritten to the unprivileged state.
\<close>

theorem C3_wraparound_not_detected:
  "owner_of wrap_world ''/root/a'' = Some 4294967294
   \<and> uint MAX_UID_GID < uint (4294967294 :: 32 word) + sint UID_GID_OFFSET
   \<and> (let (rc, w') = main wrap_world [''privconvert'', ''111'', ''unprivileged''] (Some ''y'') 0
      in rc = 0 \<and> owner_of w' ''/root/a'' = Some 99998
         \<and> list_all (\<lambda>e. \<not> is_error e) (trace w')
         \<and> files w' ''/etc/pve/lxc/111.conf'' = Some conf_111_unprivileged)"
  by code_simp

section \<open>The events of one conversion\<close>

lemma shift_acl_new_events: "acl_events p ty (new_events w (snd (shift_acl w p ty off)))"
proof (cases rule: shift_acl_cases[of w p ty off])
  case (written acl acl' ok)
  have "new_events w (snd (acl_set_file (emit (Sys_acl_get p ty) w) p ty acl'))
          = new_events w (emit (Sys_acl_get p ty) w)
            @ new_events (emit (Sys_acl_get p ty) w) (snd (acl_set_file (emit (Sys_acl_get p ty) w) p ty acl'))"
    by (rule new_events_trans[OF evolves_emit acl_set_file_evolves])
  then show ?thesis using written(3)
    by (simp add: acl_events_def new_events_emit acl_set_file_events)
qed (simp_all add: acl_events_def new_events_emit)

lemma restore_and_shift_new_events:
  "\<exists>A D. new_events w (restore_and_shift w p st off) = Sys_chmod p (st_mode st) # A @ D
         \<and> acl_events p ACL_TYPE_ACCESS A \<and> (D = [] \<or> acl_events p ACL_TYPE_DEFAULT D)"
proof -
  let ?w1 = "snd (sys_chmod w p (st_mode st))"
  let ?w2 = "snd (shift_acl ?w1 p ACL_TYPE_ACCESS off)"
  let ?w3 = "snd (shift_acl ?w2 p ACL_TYPE_DEFAULT off)"
  have e1: "evolves w ?w1" by (rule sys_chmod_evolves)
  have e2: "evolves ?w1 ?w2" by (rule shift_acl_evolves)
  have e3: "evolves ?w2 ?w3" by (rule shift_acl_evolves)
  have n2: "new_events w ?w2 = Sys_chmod p (st_mode st) # new_events ?w1 ?w2"
    using new_events_trans[OF e1 e2] by (simp add: sys_chmod_events)
  have n3: "new_events w ?w3 = Sys_chmod p (st_mode st) # new_events ?w1 ?w2 @ new_events ?w2 ?w3"
    using new_events_trans[OF evolves_trans[OF e1 e2] e3] n2 by simp
  show ?thesis
  proof (cases "S_ISDIR (st_mode st)")
    case True
    then have "restore_and_shift w p st off = ?w3" by (simp add: restore_and_shift_def Let_def)
    then show ?thesis using n3 shift_acl_new_events[of p ACL_TYPE_ACCESS ?w1 off]
        shift_acl_new_events[of p ACL_TYPE_DEFAULT ?w2 off] by auto
  next
    case False
    then have "restore_and_shift w p st off = ?w2" by (simp add: restore_and_shift_def Let_def)
    then show ?thesis using n2 shift_acl_new_events[of p ACL_TYPE_ACCESS ?w1 off]
      by (intro exI[of _ "new_events ?w1 ?w2"] exI[of _ "[]"]) simp
  qed
qed

lemma inode_mark_seen_evolves:
  "inode_mark_seen tbl w dev ino = (tbl', w1) \<Longrightarrow> evolves w w1 \<and> new_events w w1 = []"
  using inode_mark_seen_world[of tbl w dev ino] evolves_mallocs[of w "mallocs w + 1"]
  by (auto simp: new_events_def)

lemma mark_after_lstat:
  assumes "inode_mark_seen tbl (emit (Sys_lstat fpath) w) dev ino = (tbl', w1)"
  shows "evolves w w1" and "new_events w w1 = [Sys_lstat fpath]"
proof -
  have m: "evolves (emit (Sys_lstat fpath) w) w1" "new_events (emit (Sys_lstat fpath) w) w1 = []"
    using inode_mark_seen_evolves[OF assms] by auto
  show "evolves w w1" using evolves_trans[OF evolves_emit m(1)] .
  show "new_events w w1 = [Sys_lstat fpath]"
    using new_events_trans[OF evolves_emit m(1)] m(2) by (simp add: new_events_emit)
qed

lemma process_file_shape [consumes 1, case_names stat_error seen bounds chown_error converted]:
  assumes "process_file g w fpath = (r, g', w')"
  obtains
    (stat_error) "lstat_of w fpath = None" "r = 0" "g' = g\<lparr>g_errors := g_errors g + 1\<rparr>"
      "evolves w w'" "new_events w w' = [Sys_lstat fpath, Err_stat fpath]"
  | (seen) dev ino st where "lstat_of w fpath = Some (dev, ino, st)"
      "inode_seen (inode_table g) dev ino" "r = 0" "g' = g"
      "evolves w w'" "new_events w w' = [Sys_lstat fpath]"
  | (bounds) dev ino st err where "lstat_of w fpath = Some (dev, ino, st)"
      "\<not> inode_seen (inode_table g) dev ino" "r = 1"
      "g' = g\<lparr>inode_table := fst (inode_mark_seen (inode_table g) (emit (Sys_lstat fpath) w) dev ino),
               g_errors := g_errors g + 1\<rparr>"
      "evolves w w'" "new_events w w' = [Sys_lstat fpath, Err_bounds fpath err]"
  | (chown_error) dev ino st u gi where "lstat_of w fpath = Some (dev, ino, st)"
      "\<not> inode_seen (inode_table g) dev ino" "r = 0"
      "g' = g\<lparr>inode_table := fst (inode_mark_seen (inode_table g) (emit (Sys_lstat fpath) w) dev ino),
               g_errors := g_errors g + 1\<rparr>"
      "evolves w w'" "new_events w w' = [Sys_lstat fpath, Sys_lchown fpath u gi, Err_chown fpath]"
  | (converted) dev ino st u gi rest where "lstat_of w fpath = Some (dev, ino, st)"
      "\<not> inode_seen (inode_table g) dev ino" "r = 0"
      "g' = g\<lparr>inode_table := fst (inode_mark_seen (inode_table g) (emit (Sys_lstat fpath) w) dev ino),
               g_files_processed := g_files_processed g + 1\<rparr>"
      "evolves w w'" "new_events w w' = Sys_lstat fpath # Sys_lchown fpath u gi # rest"
      "rest = [] \<or> (\<exists>A D. rest = Sys_chmod fpath (st_mode st) # A @ D
          \<and> acl_events fpath ACL_TYPE_ACCESS A \<and> (D = [] \<or> acl_events fpath ACL_TYPE_DEFAULT D))"
proof (cases rule: process_file_cases[of w fpath g])
  case stat_error
  have e': "evolves w (emit (Err_stat fpath) (emit (Sys_lstat fpath) w))"
    using evolves_trans[OF evolves_emit evolves_emit] .
  have n': "new_events w (emit (Err_stat fpath) (emit (Sys_lstat fpath) w)) = [Sys_lstat fpath, Err_stat fpath]"
    by (simp add: new_events_def emit_def)
  show ?thesis using stat_error assms e' n' that(1) by auto
next
  case (seen dev ino st)
  then show ?thesis using assms that(2)[of dev ino st]
    by (auto simp: new_events_emit intro: evolves_emit)
next
  case (bounds dev ino st tbl w1 err)
  note e = mark_after_lstat(1)[OF bounds(3)] and n = mark_after_lstat(2)[OF bounds(3)]
  have e': "evolves w (emit (Err_bounds fpath err) w1)" using evolves_trans[OF e evolves_emit] .
  have n': "new_events w (emit (Err_bounds fpath err) w1) = [Sys_lstat fpath, Err_bounds fpath err]"
    using new_events_trans[OF e evolves_emit, of "Err_bounds fpath err"] n by (simp add: new_events_emit)
  show ?thesis using bounds assms e' n' that(3)[of dev ino st err] by auto
next
  case (chown_error dev ino st tbl w1 u gi w2)
  note e = mark_after_lstat(1)[OF chown_error(3)] and n = mark_after_lstat(2)[OF chown_error(3)]
  have e2: "evolves w1 w2" using sys_lchown_evolves[of w1 fpath u gi] chown_error(5) by simp
  have n2: "new_events w1 w2 = [Sys_lchown fpath u gi]"
    using sys_lchown_events[of w1 fpath u gi] chown_error(5) by simp
  have e': "evolves w (emit (Err_chown fpath) w2)"
    using evolves_trans[OF evolves_trans[OF e e2] evolves_emit] .
  have n': "new_events w (emit (Err_chown fpath) w2) = [Sys_lstat fpath, Sys_lchown fpath u gi, Err_chown fpath]"
    using new_events_trans[OF evolves_trans[OF e e2] evolves_emit, of "Err_chown fpath"]
      new_events_trans[OF e e2] n n2 by (simp add: new_events_emit)
  show ?thesis using chown_error assms e' n' that(4)[of dev ino st u gi] by auto
next
  case (converted dev ino st tbl w1 u gi w2)
  note e = mark_after_lstat(1)[OF converted(3)] and n = mark_after_lstat(2)[OF converted(3)]
  have e2: "evolves w1 w2" using sys_lchown_evolves[of w1 fpath u gi] converted(5) by simp
  have n2: "new_events w1 w2 = [Sys_lchown fpath u gi]"
    using sys_lchown_events[of w1 fpath u gi] converted(5) by simp
  have e12: "evolves w w2" using evolves_trans[OF e e2] .
  have n12: "new_events w w2 = [Sys_lstat fpath, Sys_lchown fpath u gi]"
    using new_events_trans[OF e e2] n n2 by simp
  show ?thesis
  proof (cases "S_ISLNK (st_mode st)")
    case True
    then show ?thesis using converted assms e12 n12 that(5)[of dev ino st u gi "[]"] by auto
  next
    case False
    let ?w3 = "restore_and_shift w2 fpath st (g_offset g)"
    have e3: "evolves w ?w3" using evolves_trans[OF e12 restore_and_shift_evolves] .
    have n3: "new_events w ?w3 = Sys_lstat fpath # Sys_lchown fpath u gi # new_events w2 ?w3"
      using new_events_trans[OF e12 restore_and_shift_evolves, of fpath st "g_offset g"] n12 by simp
    show ?thesis
      using converted assms False e3 n3 restore_and_shift_new_events[of w2 fpath st "g_offset g"]
        that(5)[of dev ino st u gi "new_events w2 ?w3"] by auto
  qed
qed


section \<open>Errors of a walk and of a run\<close>

lemma errors_in_append: "errors_in (a @ b) = errors_in a + errors_in b"
  by (simp add: errors_in_def)

lemma map_filter_append: "List.map_filter f (a @ b) = List.map_filter f a @ List.map_filter f b"
  by (simp add: List.map_filter_def)

lemma process_file_errors:
  assumes "process_file g w fpath = (r, g', w')"
  shows "evolves w w'" and "g_offset g' = g_offset g" and "r = 0 \<or> r = 1"
    and "g_errors g' = g_errors g + of_nat (errors_in (new_events w w'))"
    and "errors_in (new_events w w') \<le> 1"
    and "r = 1 \<Longrightarrow> errors_in (new_events w w') = 1"
    and "Sys_lstat fpath \<in> set (new_events w w')"
    and "List.map_filter attempted (new_events w w') = []"
    and "list_all (\<lambda>e. \<not> config_call e) (new_events w w')"
  using assms
  by (cases rule: process_file_shape;
      auto simp: errors_in_def acl_events_def List.map_filter_def)+

lemma nftw_walk_errors:
  assumes "nftw_walk g w entries = (r, g', w')"
  shows "evolves w w' \<and> g_offset g' = g_offset g \<and> (r = 0 \<or> r = 1)
       \<and> g_errors g' = g_errors g + of_nat (errors_in (new_events w w'))
       \<and> errors_in (new_events w w') \<le> length entries
       \<and> (r = 1 \<longrightarrow> 0 < errors_in (new_events w w'))
       \<and> (r = 0 \<longrightarrow> (\<forall>p \<in> set entries. Sys_lstat p \<in> set (new_events w w')))
       \<and> List.map_filter attempted (new_events w w') = []
       \<and> list_all (\<lambda>e. \<not> config_call e) (new_events w w')"
  using assms
proof (induction entries arbitrary: g w)
  case Nil
  then show ?case by (simp add: evolves_refl new_events_refl errors_in_def List.map_filter_def)
next
  case (Cons fpath rest)
  obtain r1 g1 w1 where p: "process_file g w fpath = (r1, g1, w1)"
    by (cases "process_file g w fpath")
  note f = process_file_errors[OF p]
  show ?case
  proof (cases "r1 = 0")
    case False
    then have "r = r1" "g' = g1" "w' = w1" using Cons.prems p by auto
    then show ?thesis using f False by auto
  next
    case True
    then have rest: "nftw_walk g1 w1 rest = (r, g', w')" using Cons.prems p by simp
    note ih = Cons.IH[OF rest]
    have ev: "evolves w w'" using evolves_trans[OF f(1)] ih by blast
    have ne: "new_events w w' = new_events w w1 @ new_events w1 w'"
      using new_events_trans[OF f(1)] ih by blast
    show ?thesis using f ih ev unfolding ne
      by (auto simp: errors_in_append map_filter_append)
  qed
qed

lemma of_nat_word64_zero:
  "n < 2 ^ 64 \<Longrightarrow> ((of_nat n :: 64 word) = 0) = (n = 0)"
  using of_nat_neq_0[where 'a = 64, of n] by (cases "n = 0") auto

lemma nftw_errors:
  assumes "nftw g w path = (r, g', w')"
  shows "evolves w w' \<and> g_offset g' = g_offset g \<and> (r = 0 \<or> r = 1 \<or> r = - 1)
       \<and> g_errors g' = g_errors g + of_nat (errors_in (new_events w w'))
       \<and> errors_in (new_events w w') \<le> length (fst (nftw_plan w path))
       \<and> (r = 1 \<longrightarrow> 0 < errors_in (new_events w w'))
       \<and> (r = 0 \<longrightarrow> \<not> snd (nftw_plan w path)
            \<and> (\<forall>p \<in> set (fst (nftw_plan w path)). Sys_lstat p \<in> set (new_events w w')))
       \<and> List.map_filter attempted (new_events w w') = []
       \<and> list_all (\<lambda>e. \<not> config_call e) (new_events w w')"
proof -
  obtain r1 g1 w1 where k: "nftw_walk g w (fst (nftw_plan w path)) = (r1, g1, w1)"
    by (cases "nftw_walk g w (fst (nftw_plan w path))")
  have "g' = g1" "w' = w1" "r = (if r1 \<noteq> 0 then r1 else if snd (nftw_plan w path) then - 1 else 0)"
    using assms k by (auto simp: nftw_def split: if_splits)
  then show ?thesis using nftw_walk_errors[OF k] by auto
qed

lemma convert_path_errors:
  assumes "convert_path g w path offset = (rc, g', w')"
    and "length (fst (nftw_plan w path)) < 2 ^ 64"
  shows "evolves w w' \<and> (rc = 0 \<or> rc = - 1)
       \<and> (rc = 0 \<longleftrightarrow> errors_in (new_events w w') = 0)
       \<and> (rc = 0 \<longrightarrow> \<not> snd (nftw_plan w path)
            \<and> (\<forall>p \<in> set (fst (nftw_plan w path)). Sys_lstat p \<in> set (new_events w w')))
       \<and> List.map_filter attempted (new_events w w') = [path]
       \<and> list_all (\<lambda>e. \<not> config_call e) (new_events w w')"
proof -
  let ?w0 = "emit (Out_converting path) w"
  let ?w1 = "emit (Sys_stat path) ?w0"
  have e1: "evolves w ?w1" using evolves_trans[OF evolves_emit evolves_emit] .
  have n1: "new_events w ?w1 = [Out_converting path, Sys_stat path]"
    by (simp add: new_events_def emit_def)
  have st: "sys_stat ?w0 path = (fst (sys_stat ?w0 path), ?w1)" by (simp add: sys_stat_def)
  show ?thesis
  proof (cases "fst (sys_stat ?w0 path)")
    case None
    then have r: "rc = - 1" "w' = emit (Err_no_path path) ?w1"
      using assms(1) st by (auto simp: convert_path_def Let_def split: prod.splits option.splits)
    have "evolves w w'" using evolves_trans[OF e1 evolves_emit] r by simp
    moreover have "new_events w w' = [Out_converting path, Sys_stat path, Err_no_path path]"
      using r by (simp add: new_events_def emit_def)
    ultimately show ?thesis using r by (simp add: errors_in_def List.map_filter_def)
  next
    case (Some sb)
    show ?thesis
    proof (cases "S_ISDIR (st_mode sb)")
      case False
      then have r: "rc = - 1" "w' = emit (Err_not_directory path) ?w1"
        using assms(1) st Some by (auto simp: convert_path_def Let_def split: prod.splits option.splits)
      have "evolves w w'" using evolves_trans[OF e1 evolves_emit] r by simp
      moreover have "new_events w w' = [Out_converting path, Sys_stat path, Err_not_directory path]"
        using r by (simp add: new_events_def emit_def)
      ultimately show ?thesis using r by (simp add: errors_in_def List.map_filter_def)
    next
      case True
      let ?g1 = "g\<lparr>g_offset := offset, g_files_processed := 0, g_errors := 0\<rparr>"
      obtain r2 g2 w2 where k: "nftw ?g1 ?w1 path = (r2, g2, w2)" by (cases "nftw ?g1 ?w1 path")
      note f = nftw_errors[OF k]
      have plan: "nftw_plan ?w1 path = nftw_plan w path" by (simp add: emit_def)
      have bound: "errors_in (new_events ?w1 w2) < 2 ^ 64" using f assms(2) plan by simp
      have ge: "g_errors g2 = of_nat (errors_in (new_events ?w1 w2))" using f by simp
      have pos: "(g_errors g2 > 0) = (0 < errors_in (new_events ?w1 w2))"
        using of_nat_word64_zero[OF bound] ge by (simp add: word_greater_zero_iff)
      have e2: "evolves w w2" using evolves_trans[OF e1] f by blast
      have n2: "new_events w w2 = [Out_converting path, Sys_stat path] @ new_events ?w1 w2"
        using new_events_trans[OF e1, of w2] f n1 by simp
      show ?thesis
      proof (cases "r2 = - 1")
        case m: True
        then have r: "rc = - 1" "w' = emit (Err_walk path) w2"
          using assms(1) st Some True k by (auto simp: convert_path_def Let_def split: prod.splits option.splits)
        have "evolves w w'" using evolves_trans[OF e2 evolves_emit] r by simp
        moreover have "new_events w w' = new_events w w2 @ [Err_walk path]"
          using new_events_trans[OF e2 evolves_emit, of "Err_walk path"] r by (simp add: new_events_emit)
        ultimately show ?thesis using r n2 f
          by (simp add: errors_in_def List.map_filter_def)
      next
        case m: False
        then have r: "rc = (if g_errors g2 > 0 then - 1 else 0)"
          "w' = emit (Out_processed (g_files_processed g2) (g_errors g2)) w2"
          using assms(1) st Some True k by (auto simp: convert_path_def Let_def split: prod.splits option.splits)
        have "evolves w w'" using evolves_trans[OF e2 evolves_emit] r by simp
        moreover have "new_events w w' = new_events w w2 @ [Out_processed (g_files_processed g2) (g_errors g2)]"
          using new_events_trans[OF e2 evolves_emit, of "Out_processed (g_files_processed g2) (g_errors g2)"] r
          by (simp add: new_events_emit)
        ultimately show ?thesis using r n2 f pos m plan
          by (auto simp: errors_in_def List.map_filter_def)
      qed
    qed
  qed
qed


lemma errors_in_zero: "errors_in evs = 0 \<longleftrightarrow> list_all (\<lambda>e. \<not> is_error e) evs"
  by (induction evs) (auto simp: errors_in_def)

lemma convert_all_errors:
  assumes "convert_all g w paths offset ov = (ov', g', w')"
    and "\<forall>p. length (fst (nftw_plan w p)) < 2 ^ 64"
  shows "evolves w w'
       \<and> (ov' = 0 \<longleftrightarrow> ov = 0 \<and> errors_in (new_events w w') = 0)
       \<and> (ov' = 0 \<longrightarrow> (\<forall>p \<in> set paths. \<not> snd (nftw_plan w p)
             \<and> (\<forall>q \<in> set (fst (nftw_plan w p)). Sys_lstat q \<in> set (new_events w w'))))
       \<and> List.map_filter attempted (new_events w w') = paths
       \<and> list_all (\<lambda>e. \<not> config_call e) (new_events w w')"
  using assms
proof (induction paths arbitrary: g w ov)
  case Nil
  then show ?case by (simp add: evolves_refl new_events_refl errors_in_def List.map_filter_def)
next
  case (Cons p rest)
  obtain r g1 w1 where c: "convert_path g w p offset = (r, g1, w1)"
    by (cases "convert_path g w p offset")
  have b: "length (fst (nftw_plan w p)) < 2 ^ 64" using Cons.prems(2) by blast
  note f = convert_path_errors[OF c b]
  have e1: "evolves w w1" using f by blast
  show ?case
  proof (cases "r = - 1")
    case True
    let ?w2 = "emit (Err_converting p) w1"
    have rest: "convert_all g1 ?w2 rest offset 1 = (ov', g', w')" using Cons.prems(1) c True by simp
    have e2: "evolves w ?w2" using evolves_trans[OF e1 evolves_emit] .
    have plan: "nftw_plan ?w2 = nftw_plan w" using evolves_static(8)[OF e2] .
    note ih = Cons.IH[OF rest, unfolded plan, OF Cons.prems(2)]
    have ev: "evolves w w'" using evolves_trans[OF e2] ih by blast
    have ne: "new_events w w' = new_events w w1 @ [Err_converting p] @ new_events ?w2 w'"
      using new_events_trans[OF e2, of w'] new_events_trans[OF e1 evolves_emit, of "Err_converting p"] ih
      by (simp add: new_events_emit)
    have nz: "ov' \<noteq> 0" using ih by simp
    have er: "errors_in (new_events w w') \<noteq> 0" unfolding ne by (simp add: errors_in_def)
    have a: "List.map_filter attempted (new_events w w1) = [p]" using f by blast
    have a': "List.map_filter attempted (new_events ?w2 w') = rest" using ih by blast
    have mf: "List.map_filter attempted (new_events w w') = p # rest"
      unfolding ne map_filter_append a a' by (simp add: List.map_filter_def)
    have cc: "list_all (\<lambda>e. \<not> config_call e) (new_events w w')"
      unfolding ne using f ih by simp
    show ?thesis using ev nz er mf cc by simp
  next
    case False
    then have r0: "r = 0" using f by blast
    have rest: "convert_all g1 w1 rest offset ov = (ov', g', w')" using Cons.prems(1) c False by simp
    have plan: "nftw_plan w1 = nftw_plan w" using evolves_static(8)[OF e1] .
    note ih = Cons.IH[OF rest, unfolded plan, OF Cons.prems(2)]
    have ev: "evolves w w'" using evolves_trans[OF e1] ih by blast
    have ne: "new_events w w' = new_events w w1 @ new_events w1 w'"
      using new_events_trans[OF e1, of w'] ih by simp
    have a: "List.map_filter attempted (new_events w w1) = [p]" using f by blast
    have a': "List.map_filter attempted (new_events w1 w') = rest" using ih by blast
    have mf: "List.map_filter attempted (new_events w w') = p # rest"
      unfolding ne map_filter_append a a' by simp
    have cc: "list_all (\<lambda>e. \<not> config_call e) (new_events w w')"
      unfolding ne using f ih by simp
    have z: "errors_in (new_events w w1) = 0" using f r0 by blast
    have er: "(ov' = 0) = (ov = 0 \<and> errors_in (new_events w w') = 0)"
      unfolding ne errors_in_append using ih z by simp
    have wk: "ov' = 0 \<longrightarrow> (\<forall>p \<in> set (p # rest). \<not> snd (nftw_plan w p)
             \<and> (\<forall>q \<in> set (fst (nftw_plan w p)). Sys_lstat q \<in> set (new_events w w')))"
      unfolding ne using f r0 ih by auto
    show ?thesis using ev er wk mf cc by blast
  qed
qed

lemma update_config_frame:
  assumes "update_config w config_path target = (r, w')"
  shows "(r = 0 \<or> r = - 1) \<and> inodes w' = inodes w \<and> names w' = names w
       \<and> (\<exists>evs. trace w' = trace w @ evs
             \<and> list_all (\<lambda>e. \<not> is_error e \<and> attempted e = None \<and> mutation_of e = None) evs)"
  using assms by (auto simp: update_config_def Let_def emit_def split: if_splits option.splits)

lemma main_cases [consumes 1, case_names idle failed committed]:
  assumes "main w argv answer euid = (rc, w')"
  obtains (idle) "w' = w"
  | (failed) paths cur target offset ov g w1 where
      "read_config w (''/etc/pve/lxc/'' @ show_int (atoi (argv ! 1)) @ ''.conf'') = Some (paths, cur)"
      "parse_mode (argv ! 2) = Some (target, offset)"
      "convert_all initial_globals w paths offset 0 = (ov, g, w1)" "ov \<noteq> 0" "w' = w1" "rc = 1"
  | (committed) paths cur target offset g w1 r where
      "read_config w (''/etc/pve/lxc/'' @ show_int (atoi (argv ! 1)) @ ''.conf'') = Some (paths, cur)"
      "parse_mode (argv ! 2) = Some (target, offset)"
      "convert_all initial_globals w paths offset 0 = (0, g, w1)"
      "update_config w1 (''/etc/pve/lxc/'' @ show_int (atoi (argv ! 1)) @ ''.conf'') target = (r, w')"
      "rc = (if r = - 1 then 1 else 0)"
  using assms
  by (auto simp: main_def Let_def split: if_splits option.splits prod.splits)

text \<open>
  Claim C1. Take a run of \<^verbatim>\<open>main\<close> from an empty trace, where each walk has fewer than
  \<open>2^64\<close> entries (the error counter is a 64-bit integer).
  \<^item> If the run changed any file or made any call of the configuration patcher, then no
    error line was printed at all, and for every target path of the configuration the
    walk did not fail and every entry of the walk was visited.
  \<^item> If the run did anything, the conversions it announced are exactly the target paths of
    the configuration, in order: a path that fails does not keep the later ones from being
    attempted.
  So when any path fails, by a per-object error or a bounds abort, no file is changed and
  the patcher is never called.
\<close>

theorem C1_commit_gate:
  assumes "main w argv answer euid = (rc, w')" and "trace w = []"
    and "\<forall>p. length (fst (nftw_plan w p)) < 2 ^ 64"
  shows "(files w' \<noteq> files w \<or> \<not> list_all (\<lambda>e. \<not> config_call e) (trace w') \<longrightarrow>
            list_all (\<lambda>e. \<not> is_error e) (trace w')
          \<and> (\<exists>paths cur.
                read_config w (''/etc/pve/lxc/'' @ show_int (atoi (argv ! 1)) @ ''.conf'')
                  = Some (paths, cur)
                \<and> (\<forall>p \<in> set paths. \<not> snd (nftw_plan w p)
                      \<and> (\<forall>q \<in> set (fst (nftw_plan w p)). Sys_lstat q \<in> set (trace w')))))
       \<and> (trace w' \<noteq> [] \<longrightarrow>
            (\<exists>paths cur.
                read_config w (''/etc/pve/lxc/'' @ show_int (atoi (argv ! 1)) @ ''.conf'')
                  = Some (paths, cur)
                \<and> List.map_filter attempted (trace w') = paths))"
  using assms(1)
proof (cases rule: main_cases)
  case idle
  then show ?thesis using assms(2) by simp
next
  case (failed paths cur target offset ov g w1)
  note f = convert_all_errors[OF failed(3) assms(3)]
  have t: "trace w1 = new_events w w1" using evolves_trace[of w w1] f assms(2) by simp
  have "files w1 = files w" using evolves_static(2)[of w w1] f by blast
  then show ?thesis using failed f t by auto
next
  case (committed paths cur target offset g w1 r)
  note f = convert_all_errors[OF committed(3) assms(3)]
  have t: "trace w1 = new_events w w1" using evolves_trace[of w w1] f assms(2) by simp
  obtain evs where u: "trace w' = trace w1 @ evs"
    "list_all (\<lambda>e. \<not> is_error e \<and> attempted e = None \<and> mutation_of e = None) evs"
    using update_config_frame[OF committed(4)] by blast
  have a: "List.map_filter attempted evs = []" using u(2)
    by (induction evs) (auto simp: List.map_filter_def)
  have b: "list_all (\<lambda>e. \<not> is_error e) evs" using u(2) by (induction evs) auto
  have c: "list_all (\<lambda>e. \<not> is_error e) (trace w1)" using f t by (simp add: errors_in_zero)
  show ?thesis using committed(1) f t u(1) a b c by (auto simp: map_filter_append)
qed


theorem C1_commit_gate_witness:
  "trace hardlink_world = []
   \<and> list_all (\<lambda>e. \<not> is_error e)
        (trace (snd (main hardlink_world [''privconvert'', ''111'', ''unprivileged''] (Some ''y'') 0)))
   \<and> List.map_filter attempted
        (trace (snd (main hardlink_world [''privconvert'', ''111'', ''unprivileged''] (Some ''y'') 0)))
       = [''/root'']"
proof -
  let ?argv = "[''privconvert'', ''111'', ''unprivileged'']"
  let ?res = "main hardlink_world ?argv (Some ''y'') 0"
  have run: "?res = (fst ?res, snd ?res)" by simp
  have t: "trace hardlink_world = []" by (simp add: hardlink_world_def quiet_world_def)
  have b: "\<forall>p. length (fst (nftw_plan hardlink_world p)) < 2 ^ 64"
    by (simp add: hardlink_world_def quiet_world_def)
  have c: "\<not> list_all (\<lambda>e. \<not> config_call e) (trace (snd ?res))" by code_simp
  have d: "trace (snd ?res) \<noteq> []" using c by auto
  have r: "read_config hardlink_world (''/etc/pve/lxc/'' @ show_int (atoi (?argv ! 1)) @ ''.conf'')
             = Some ([''/root''], 0)" by code_simp
  from C1_commit_gate[OF run t b] c d r t show ?thesis by auto
qed

section \<open>Each inode is converted once\<close>

lemma chain_seen_iff: "chain_seen chain dev ino \<longleftrightarrow> (dev, ino) \<in> set chain"
  by (induction chain) auto

lemma inode_seen_marked:
  "malloc_ok w (mallocs w) \<Longrightarrow> inode_seen (fst (inode_mark_seen tbl w dev ino)) dev ino"
  by (simp add: inode_mark_seen_def inode_seen_def chain_seen_iff Let_def)

lemma inode_seen_mono:
  "inode_seen tbl d i \<Longrightarrow> inode_seen (fst (inode_mark_seen tbl w dev ino)) d i"
  by (auto simp: inode_mark_seen_def inode_seen_def chain_seen_iff Let_def)

lemma applied_append: "applied w m k (a @ b) = applied w m k a + applied w m k b"
  by (simp add: applied_def)

lemma applied_names: "names w' = names w \<Longrightarrow> applied w' m k t = applied w m k t"
proof -
  assume "names w' = names w"
  then have "mutates w' m k = mutates w m k"
    by (auto simp: mutates_def fun_eq_iff split: option.splits)
  then show ?thesis by (simp add: applied_def)
qed

lemma once_invD:
  assumes "once_inv g w"
  shows "applied w m k (trace w) \<le> 1"
    and "0 < applied w m k (trace w) \<Longrightarrow> inode_seen (inode_table g) (fst k) (snd k)"
  using assms unfolding once_inv_def by blast+

lemma applied_evolves:
  assumes "evolves w w'"
  shows "applied w' m k (trace w') = applied w m k (trace w) + applied w m k (new_events w w')"
  using applied_names[OF evolves_static(1)[OF assms]] evolves_trace[OF assms]
  by (simp add: applied_append)

lemma mutates_simps [simp]:
  "mutates w m k (Sys_lchown p u g) = (m = Chown \<and> names w p = Some k)"
  "mutates w m k (Sys_chmod p md) = (m = Chmod \<and> names w p = Some k)"
  "mutates w m k (Sys_acl_set p ty acl) = (m = Acl_write ty \<and> names w p = Some k)"
  "mutates w m k (Sys_lstat p) = False"
  "mutates w m k (Sys_stat p) = False"
  "mutates w m k (Sys_acl_get p ty) = False"
  "mutates w m k (Err_stat p) = False"
  "mutates w m k (Err_bounds p e) = False"
  "mutates w m k (Err_chown p) = False"
  by (auto simp: mutates_def)

lemma lstat_of_names: "lstat_of w p = Some (dev, ino, st) \<Longrightarrow> names w p = Some (dev, ino)"
  by (auto simp: lstat_of_def split: option.splits)

lemma malloc_ok_emit [simp]: "malloc_ok (emit e w) = malloc_ok w" "mallocs (emit e w) = mallocs w"
  by (simp_all add: emit_def)

lemma process_file_once:
  assumes run: "process_file g w fpath = (r, g', w')"
    and ok: "\<forall>n. malloc_ok w n"
    and inv: "once_inv g w"
  shows "once_inv g' w'"
  using run
proof (cases rule: process_file_shape)
  case stat_error
  have "\<And>m k. applied w m k (new_events w w') = 0"
    using stat_error(5) by (simp add: applied_def)
  then show ?thesis using inv stat_error(3) applied_evolves[OF stat_error(4)]
    by (simp add: once_inv_def)
next
  case (seen dev ino st)
  have "\<And>m k. applied w m k (new_events w w') = 0"
    using seen(6) by (simp add: applied_def)
  then show ?thesis using inv seen(4) applied_evolves[OF seen(5)]
    by (simp add: once_inv_def)
next
  case (bounds dev ino st err)
  have "\<And>m k. applied w m k (new_events w w') = 0"
    using bounds(6) by (simp add: applied_def)
  then show ?thesis using inv bounds(4) applied_evolves[OF bounds(5)]
    by (auto simp: once_inv_def intro: inode_seen_mono)
next
  case (chown_error dev ino st u gi)
  let ?tbl = "fst (inode_mark_seen (inode_table g) (emit (Sys_lstat fpath) w) dev ino)"
  have nm: "names w fpath = Some (dev, ino)" using lstat_of_names[OF chown_error(1)] .
  have new: "\<And>m k. applied w m k (new_events w w') \<le> (if k = (dev, ino) then 1 else 0)"
    using chown_error(6) nm by (simp add: applied_def)
  have zero: "\<And>m. applied w m (dev, ino) (trace w) = 0"
    using inv chown_error(2) unfolding once_inv_def by (metis fst_conv snd_conv not_gr_zero)
  have marked: "inode_seen ?tbl dev ino" using inode_seen_marked[of "emit (Sys_lstat fpath) w"] ok by simp
  show ?thesis unfolding once_inv_def
  proof (intro allI)
    fix m k
    show "applied w' m k (trace w') \<le> 1 \<and>
        (0 < applied w' m k (trace w') \<longrightarrow> inode_seen (inode_table g') (fst k) (snd k))"
    proof (cases "k = (dev, ino)")
      case True
      then show ?thesis using new[of m k] zero[of m] marked chown_error(4) applied_evolves[OF chown_error(5), of m k]
        by simp
    next
      case False
      then have "applied w' m k (trace w') = applied w m k (trace w)"
        using new[of m k] applied_evolves[OF chown_error(5), of m k] by simp
      then show ?thesis
        using once_invD[OF inv, of m k] chown_error(4) inode_seen_mono[of "inode_table g" "fst k" "snd k"]
        by simp
    qed
  qed
next
  case (converted dev ino st u gi rest)
  let ?tbl = "fst (inode_mark_seen (inode_table g) (emit (Sys_lstat fpath) w) dev ino)"
  have nm: "names w fpath = Some (dev, ino)" using lstat_of_names[OF converted(1)] .
  have new: "applied w m k (new_events w w') \<le> (if k = (dev, ino) then 1 else 0)" for m k
  proof -
    consider (link) "rest = []"
      | (other) A D where "rest = Sys_chmod fpath (st_mode st) # A @ D"
          "acl_events fpath ACL_TYPE_ACCESS A" "D = [] \<or> acl_events fpath ACL_TYPE_DEFAULT D"
      using converted(7) by blast
    then show ?thesis
    proof cases
      case link
      then show ?thesis using converted(6) nm by (simp add: applied_def)
    next
      case other
      then show ?thesis using converted(6) nm
        by (cases m) (auto simp: applied_def acl_events_def)
    qed
  qed
  have zero: "\<And>m. applied w m (dev, ino) (trace w) = 0"
    using inv converted(2) unfolding once_inv_def by (metis fst_conv snd_conv not_gr_zero)
  have marked: "inode_seen ?tbl dev ino" using inode_seen_marked[of "emit (Sys_lstat fpath) w"] ok by simp
  show ?thesis unfolding once_inv_def
  proof (intro allI)
    fix m k
    show "applied w' m k (trace w') \<le> 1 \<and>
        (0 < applied w' m k (trace w') \<longrightarrow> inode_seen (inode_table g') (fst k) (snd k))"
    proof (cases "k = (dev, ino)")
      case True
      then show ?thesis using new[of m k] zero[of m] marked converted(4) applied_evolves[OF converted(5), of m k]
        by simp
    next
      case False
      then have "applied w' m k (trace w') = applied w m k (trace w)"
        using new[of m k] applied_evolves[OF converted(5), of m k] by simp
      then show ?thesis
        using once_invD[OF inv, of m k] converted(4) inode_seen_mono[of "inode_table g" "fst k" "snd k"]
        by simp
    qed
  qed
qed


lemma once_inv_table: "inode_table g' = inode_table g \<Longrightarrow> once_inv g' w = once_inv g w"
  by (simp add: once_inv_def)

lemma once_inv_emit:
  assumes "mutation_of e = None"
  shows "once_inv g (emit e w) = once_inv g w"
proof -
  have n: "names (emit e w) = names w" by (simp add: emit_def)
  have "mutates w m k e = False" for m k using assms by (simp add: mutates_def)
  then have "applied (emit e w) m k (trace (emit e w)) = applied w m k (trace w)" for m k
    using applied_names[OF n, of m k "trace w @ [e]"] by (simp add: emit_def applied_def)
  then show ?thesis by (simp add: once_inv_def)
qed

lemma nftw_walk_once:
  assumes "nftw_walk g w entries = (r, g', w')" and "\<forall>n. malloc_ok w n" and "once_inv g w"
  shows "once_inv g' w'"
  using assms
proof (induction entries arbitrary: g w)
  case Nil
  then show ?case by simp
next
  case (Cons fpath rest)
  obtain r1 g1 w1 where p: "process_file g w fpath = (r1, g1, w1)"
    by (cases "process_file g w fpath")
  have i1: "once_inv g1 w1" using process_file_once[OF p Cons.prems(2,3)] .
  have m1: "\<forall>n. malloc_ok w1 n"
    using evolves_static(3)[OF process_file_errors(1)[OF p]] Cons.prems(2) by simp
  show ?case
  proof (cases "r1 = 0")
    case False
    then have "g' = g1" "w' = w1" using Cons.prems(1) p by auto
    then show ?thesis using i1 by simp
  next
    case True
    then have "nftw_walk g1 w1 rest = (r, g', w')" using Cons.prems(1) p by simp
    then show ?thesis using Cons.IH m1 i1 by blast
  qed
qed

lemma convert_path_once:
  assumes "convert_path g w path offset = (rc, g', w')" and "\<forall>n. malloc_ok w n"
    and "once_inv g w"
  shows "once_inv g' w'"
proof -
  let ?w0 = "emit (Out_converting path) w"
  let ?w1 = "emit (Sys_stat path) ?w0"
  have i1: "once_inv g ?w1" using assms(3) by (simp add: once_inv_emit)
  have st: "sys_stat ?w0 path = (fst (sys_stat ?w0 path), ?w1)" by (simp add: sys_stat_def)
  show ?thesis
  proof (cases "fst (sys_stat ?w0 path)")
    case None
    then have "g' = g" "w' = emit (Err_no_path path) ?w1"
      using assms(1) st by (auto simp: convert_path_def Let_def split: prod.splits option.splits)
    then show ?thesis using i1 by (simp add: once_inv_emit)
  next
    case (Some sb)
    show ?thesis
    proof (cases "S_ISDIR (st_mode sb)")
      case False
      then have "g' = g" "w' = emit (Err_not_directory path) ?w1"
        using assms(1) st Some by (auto simp: convert_path_def Let_def split: prod.splits option.splits)
      then show ?thesis using i1 by (simp add: once_inv_emit)
    next
      case True
      let ?g1 = "g\<lparr>g_offset := offset, g_files_processed := 0, g_errors := 0\<rparr>"
      obtain r2 g2 w2 where k: "nftw ?g1 ?w1 path = (r2, g2, w2)" by (cases "nftw ?g1 ?w1 path")
      obtain r3 where k': "nftw_walk ?g1 ?w1 (fst (nftw_plan ?w1 path)) = (r3, g2, w2)"
        using k by (auto simp: nftw_def split: prod.splits if_splits)
      have i1': "once_inv ?g1 ?w1" using i1 once_inv_table[of ?g1 g ?w1] by simp
      have m1: "\<forall>n. malloc_ok ?w1 n" using assms(2) by simp
      have i2: "once_inv g2 w2" using nftw_walk_once[OF k' m1 i1'] .
      have "g' = g2" "w' = emit (Err_walk path) w2
                \<or> w' = emit (Out_processed (g_files_processed g2) (g_errors g2)) w2"
        using assms(1) st Some True k
        by (auto simp: convert_path_def Let_def split: prod.splits option.splits if_splits)
      then show ?thesis using i2 by (auto simp: once_inv_emit)
    qed
  qed
qed

lemma convert_path_evolves:
  "convert_path g w path offset = (rc, g', w') \<Longrightarrow> evolves w w'"
proof -
  assume a: "convert_path g w path offset = (rc, g', w')"
  let ?w1 = "emit (Sys_stat path) (emit (Out_converting path) w)"
  have e1: "evolves w ?w1" using evolves_trans[OF evolves_emit evolves_emit] .
  have st: "sys_stat (emit (Out_converting path) w) path
              = (fst (sys_stat (emit (Out_converting path) w) path), ?w1)"
    by (simp add: sys_stat_def)
  let ?g1 = "g\<lparr>g_offset := offset, g_files_processed := 0, g_errors := 0\<rparr>"
  obtain r2 g2 w2 where k: "nftw ?g1 ?w1 path = (r2, g2, w2)" by (cases "nftw ?g1 ?w1 path")
  have e2: "evolves w w2" using evolves_trans[OF e1] nftw_errors[OF k] by blast
  have "w' = emit (Err_no_path path) ?w1 \<or> w' = emit (Err_not_directory path) ?w1
      \<or> w' = emit (Err_walk path) w2
      \<or> w' = emit (Out_processed (g_files_processed g2) (g_errors g2)) w2"
    using a st k by (auto simp: convert_path_def Let_def split: prod.splits option.splits if_splits)
  then show ?thesis
    using evolves_trans[OF e1 evolves_emit] evolves_trans[OF e2 evolves_emit] by auto
qed

lemma convert_all_once:
  assumes "convert_all g w paths offset ov = (ov', g', w')" and "\<forall>n. malloc_ok w n"
    and "once_inv g w"
  shows "once_inv g' w' \<and> names w' = names w"
  using assms
proof (induction paths arbitrary: g w ov)
  case Nil
  then show ?case by simp
next
  case (Cons p rest)
  obtain r g1 w1 where c: "convert_path g w p offset = (r, g1, w1)"
    by (cases "convert_path g w p offset")
  have i1: "once_inv g1 w1" using convert_path_once[OF c Cons.prems(2,3)] .
  have e1: "evolves w w1" using convert_path_evolves[OF c] .
  have m1: "\<forall>n. malloc_ok w1 n" using evolves_static(3)[OF e1] Cons.prems(2) by simp
  have n1: "names w1 = names w" using evolves_static(1)[OF e1] .
  show ?case
  proof (cases "r = - 1")
    case True
    let ?w2 = "emit (Err_converting p) w1"
    have rest: "convert_all g1 ?w2 rest offset 1 = (ov', g', w')" using Cons.prems(1) c True by simp
    have "once_inv g1 ?w2" using i1 by (simp add: once_inv_emit)
    moreover have "\<forall>n. malloc_ok ?w2 n" using m1 by simp
    moreover have "names ?w2 = names w" using n1 by (simp add: emit_def)
    ultimately show ?thesis using Cons.IH[OF rest] by simp
  next
    case False
    then have rest: "convert_all g1 w1 rest offset ov = (ov', g', w')" using Cons.prems(1) c by simp
    show ?thesis using Cons.IH[OF rest m1 i1] n1 by simp
  qed
qed

text \<open>
  Claim C4 as stated fails when the allocation of line 70 fails: the pair is not recorded
  (lines 71-74), the second hard link is converted again, and the file of root ends up
  owned by 200000 after two calls of \<^verbatim>\<open>lchown\<close> on its inode, in a run that succeeds.
\<close>

theorem C4_counterexample:
  "(let (rc, w') = main no_memory_world [''privconvert'', ''111'', ''unprivileged''] (Some ''y'') 0
    in rc = 0 \<and> applied no_memory_world Chown (1, 10) (trace w') = 2
       \<and> owner_of no_memory_world ''/root/a'' = Some 0
       \<and> owner_of w' ''/root/a'' = Some 200000)"
  by code_simp

text \<open>
  Claim C4, as amended. In a run of \<^verbatim>\<open>main\<close> from an empty trace in which every
  allocation succeeds, each of \<^verbatim>\<open>lchown\<close>, \<^verbatim>\<open>chmod\<close> and the write of either ACL is
  called at most once on every (device, inode) pair, over all hard links and all target
  paths. A visit of a pair already in the hash set does nothing after its \<^verbatim>\<open>lstat\<close>; and
  after any visit whose \<^verbatim>\<open>lstat\<close> succeeded the pair is in the hash set, whether the
  conversion then failed or not, provided the allocation of the entry succeeded.
\<close>

theorem C4_converted_once:
  assumes "main w argv answer euid = (rc, w')" and "trace w = []" and "\<forall>n. malloc_ok w n"
  shows "(\<forall>m k. applied w m k (trace w') \<le> 1)
       \<and> (\<forall>g v fpath dev ino st. lstat_of v fpath = Some (dev, ino, st) \<longrightarrow>
            (inode_seen (inode_table g) dev ino \<longrightarrow>
               process_file g v fpath = (0, g, emit (Sys_lstat fpath) v))
          \<and> (malloc_ok v (mallocs v) \<longrightarrow>
               inode_seen (inode_table (fst (snd (process_file g v fpath)))) dev ino))"
proof -
  have init: "once_inv initial_globals w"
    using assms(2) by (simp add: once_inv_def applied_def)
  have run: "\<forall>m k. applied w m k (trace w') \<le> 1"
    using assms(1)
  proof (cases rule: main_cases)
    case idle
    then show ?thesis using assms(2) by (simp add: applied_def)
  next
    case (failed paths cur target offset ov g w1)
    from convert_all_once[OF failed(3) assms(3) init] failed(5)
    show ?thesis using once_invD(1)[of g w1] applied_names[of w1 w] by simp
  next
    case (committed paths cur target offset g w1 r)
    note c = convert_all_once[OF committed(3) assms(3) init]
    obtain evs where u: "trace w' = trace w1 @ evs"
      "list_all (\<lambda>e. \<not> is_error e \<and> attempted e = None \<and> mutation_of e = None) evs"
      using update_config_frame[OF committed(4)] by blast
    have "applied w m k evs = 0" for m k
      using u(2) by (induction evs) (auto simp: applied_def mutates_def)
    then show ?thesis
      using c once_invD(1)[of g w1] applied_names[of w1 w] u(1) by (simp add: applied_append)
  qed
  have visit: "\<forall>g v fpath dev ino st. lstat_of v fpath = Some (dev, ino, st) \<longrightarrow>
            (inode_seen (inode_table g) dev ino \<longrightarrow>
               process_file g v fpath = (0, g, emit (Sys_lstat fpath) v))
          \<and> (malloc_ok v (mallocs v) \<longrightarrow>
               inode_seen (inode_table (fst (snd (process_file g v fpath)))) dev ino)"
  proof (intro allI impI conjI)
    fix g :: globals and v :: world and fpath :: path and dev :: dev_t and ino :: ino_t
      and st :: inode
    assume l: "lstat_of v fpath = Some (dev, ino, st)"
    {
      assume "inode_seen (inode_table g) dev ino"
      then show "process_file g v fpath = (0, g, emit (Sys_lstat fpath) v)"
        using l by (simp add: process_file_def sys_lstat_def)
    }
    {
      assume ok: "malloc_ok v (mallocs v)"
      obtain r g' v' where p: "process_file g v fpath = (r, g', v')"
        by (cases "process_file g v fpath")
      have mk: "inode_seen (fst (inode_mark_seen (inode_table g) (emit (Sys_lstat fpath) v) dev ino)) dev ino"
        using inode_seen_marked[of "emit (Sys_lstat fpath) v"] ok by simp
      from p have "inode_seen (inode_table g') dev ino"
        using l mk by (cases rule: process_file_shape) auto
      then show "inode_seen (inode_table (fst (snd (process_file g v fpath)))) dev ino"
        using p by simp
    }
  qed
  show ?thesis using run visit by blast
qed


theorem C4_converted_once_witness:
  "trace hardlink_world = []
   \<and> applied hardlink_world Chown (1, 10)
        (trace (snd (main hardlink_world [''privconvert'', ''111'', ''unprivileged''] (Some ''y'') 0)))
       \<le> 1
   \<and> inode_seen (inode_table (fst (snd (process_file initial_globals hardlink_world ''/root/a'')))) 1 10"
proof -
  let ?argv = "[''privconvert'', ''111'', ''unprivileged'']"
  let ?res = "main hardlink_world ?argv (Some ''y'') 0"
  have run: "?res = (fst ?res, snd ?res)" by simp
  have t: "trace hardlink_world = []" by (simp add: hardlink_world_def quiet_world_def)
  have m: "\<forall>n. malloc_ok hardlink_world n" by (simp add: hardlink_world_def quiet_world_def)
  have l: "lstat_of hardlink_world ''/root/a'' = Some (1, 10, plain_inode 1000 1000 33188)"
    by code_simp
  from C4_converted_once[OF run t m] l m t show ?thesis by blast
qed

end
